theory Spec2Isabelle
  imports Main "HOL-Library.Word" "HOL-Library.Sublist"
begin

section \<open>The process and thread scheduler of chino-os (ProcessManager.cpp)\<close>

subsection \<open>Data model\<close>

text \<open>
  A \<open>HANDLE\<close> is the address of a list node, \<open>0\<close> being the null handle. The source
  obtains it from a node pointer with \<open>reinterpret_cast\<close>; addresses are natural
  numbers here. Thread priorities are \<open>uint32_t\<close>.
\<close>

type_synonym HANDLE = nat

type_synonym uintptr_t = nat

text \<open>
  A thread entry procedure. \<open>IdleThreadMain\<close> is the static function of the source,
  every other entry procedure is named by a number.
\<close>

datatype ThreadMain_t = IdleThreadMain | EntryPoint nat

text \<open>
  Every \<open>kassert\<close> of the source is fatal. The error value names the assertion that
  failed. \<open>InvalidDereference\<close> is no assertion: it stands for the undefined behaviour
  of the source when a handle or iterator that names no live node is dereferenced.
\<close>

datatype kassert =
    PriorityInReadyBounds
  | ReadySlotNonEmpty
  | NoIdleProcessYet
  | SwitchToThreadGood
  | HandleNonNull
  | PriorityAtMostMax

datatype error = Fatal kassert | InvalidDereference

text \<open>
  Modelled from the spec: the context block that \<open>ArchInitializeThreadContextArch\<close>
  (architecture layer, not part of the sources) fills in. Section 4.2 of the
  specification: the first resumption executes the entry procedure with the parameter,
  and a return from it transfers control to the exit handler \<open>OnThreadExit\<close>. The stack
  buffer and the stack pointer are memory layout and are left out.
\<close>

datatype exit_handler = OnThreadExit

record ThreadContext_Arch =
  ctx_entryPoint :: ThreadMain_t
  ctx_returnAddress :: exit_handler
  ctx_parameter :: uintptr_t

record Thread =
  t_priority :: "32 word"
  t_threadContext :: ThreadContext_Arch

text \<open>
  Modelled from the spec: \<open>Chino::list\<close> and its iterator (declared in headers that
  are not part of the sources). A list is an ordered sequence of nodes; a list of
  threads or processes is a list of pairs of the node's address and its content. An
  iterator of a ready-queue list is the position of an entry, slot index and index in the
  slot, or \<open>None\<close> for the null iterator, for which \<open>good()\<close> is false. An iterator of
  the process list is the position of the process.
\<close>

record Process =
  p_name :: string
  p_threads :: "(HANDLE \<times> Thread) list"

type_synonym thread_handle_it = "(nat \<times> nat) option"

text \<open>A reference to the saved context of the thread whose node has the given handle.\<close>

datatype context_ref = ContextOf HANDLE

text \<open>
  Field names drop the trailing underscore of the source (\<open>priority_\<close> is
  \<open>t_priority\<close>, \<open>threads_\<close> is \<open>p_threads\<close>, \<open>readyThreads_\<close> is \<open>readyThreads\<close>, and
  so on).

  The state: the fields of the one \<open>ProcessManager\<close> object \<open>g_ProcessMgr\<close>, the global
  \<open>g_CurrentThreadContext\<close> (\<open>None\<close> is its initial value 0), whether the scheduler
  timer has been set up, and the number of list nodes handed out so far.
  The length of \<open>readyThreads\<close> is the size of the array, which the missing header
  fixes.
\<close>

record kernel =
  processes :: "(HANDLE \<times> Process) list"
  readyThreads :: "HANDLE list list"
  runningThread :: thread_handle_it
  idleProcess :: HANDLE
  g_CurrentThreadContext :: "context_ref option"
  schedulerTimer :: bool
  allocated :: nat

text \<open>
  Modelled from the spec: the allocator behind \<open>emplace_back\<close> (not part of the
  sources). A new node gets an address that is not null and differs from the address of
  every node handed out before.
\<close>

definition new_node :: "kernel \<Rightarrow> HANDLE \<times> kernel" where
  "new_node s = (Suc (allocated s), s\<lparr>allocated := Suc (allocated s)\<rparr>)"

definition ProcessManager_ctor :: "nat \<Rightarrow> kernel" where
  "ProcessManager_ctor n =
     \<lparr>processes = [], readyThreads = replicate n [], runningThread = None,
      idleProcess = 0, g_CurrentThreadContext = None, schedulerTimer = False,
      allocated = 0\<rparr>"

subsection \<open>Iterators and handles\<close>

definition good :: "thread_handle_it \<Rightarrow> bool" where
  "good it = (it \<noteq> None)"

text \<open>\<open>++it\<close>: the next entry of the same slot, the null iterator after the last one.\<close>

definition it_next :: "HANDLE list list \<Rightarrow> thread_handle_it \<Rightarrow> thread_handle_it" where
  "it_next rq it =
     (case it of
        None \<Rightarrow> None
      | Some (p, i) \<Rightarrow>
          if p < length rq \<and> Suc i < length (rq ! p) then Some (p, Suc i) else None)"

text \<open>\<open>*it\<close>: the handle stored in the entry.\<close>

definition it_deref :: "HANDLE list list \<Rightarrow> thread_handle_it \<Rightarrow> HANDLE option" where
  "it_deref rq it =
     (case it of
        None \<Rightarrow> None
      | Some (p, i) \<Rightarrow>
          if p < length rq \<and> i < length (rq ! p) then Some (rq ! p ! i) else None)"

definition all_threads :: "kernel \<Rightarrow> (HANDLE \<times> Thread) list" where
  "all_threads s = concat (map (\<lambda>hp. p_threads (snd hp)) (processes s))"

text \<open>\<open>HandleToListIt<Thread>(handle)\<close>, dereferenced.\<close>

definition find_thread :: "kernel \<Rightarrow> HANDLE \<Rightarrow> Thread option" where
  "find_thread s handle = map_of (all_threads s) handle"

text \<open>\<open>HandleToListIt<Process>(handle)\<close>, dereferenced.\<close>

definition find_process :: "kernel \<Rightarrow> HANDLE \<Rightarrow> Process option" where
  "find_process s handle = map_of (processes s) handle"

subsection \<open>Operations\<close>

definition Thread_ctor ::
  "32 word \<Rightarrow> ThreadMain_t \<Rightarrow> 32 word \<Rightarrow> uintptr_t \<Rightarrow> error + Thread" where
  "Thread_ctor MAX_THREAD_PRIORITY entryPoint priority parameter =
     (if priority \<le> MAX_THREAD_PRIORITY
      then Inr \<lparr>t_priority = priority,
                t_threadContext = \<lparr>ctx_entryPoint = entryPoint,
                                  ctx_returnAddress = OnThreadExit,
                                  ctx_parameter = parameter\<rparr>\<rparr>
      else Inl (Fatal PriorityAtMostMax))"

definition Process_ctor :: "string \<Rightarrow> Process" where
  "Process_ctor name = \<lparr>p_name = name, p_threads = []\<rparr>"

definition AddReadyThread :: "kernel \<Rightarrow> HANDLE \<Rightarrow> error + kernel" where
  "AddReadyThread s handle =
     (case find_thread s handle of
        None \<Rightarrow> Inl InvalidDereference
      | Some t \<Rightarrow>
          (let priority = unat (t_priority t)
           in (if \<not> priority < length (readyThreads s) then Inl (Fatal PriorityInReadyBounds)
               else
                 (let s' = s\<lparr>readyThreads :=
                               (readyThreads s)[priority := readyThreads s ! priority @ [handle]]\<rparr>
                  in (if readyThreads s' ! priority = [] then Inl (Fatal ReadySlotNonEmpty)
                      else Inr s')))))"

text \<open>
  \<open>Process::AddThread\<close>; \<open>this\<close> is the position of the process in the process list.
\<close>

definition Process_AddThread ::
  "32 word \<Rightarrow> kernel \<Rightarrow> nat \<Rightarrow> ThreadMain_t \<Rightarrow> 32 word \<Rightarrow> uintptr_t \<Rightarrow> error + (HANDLE \<times> kernel)"
  where
  "Process_AddThread MAX_THREAD_PRIORITY s this entryPoint priority parameter =
     (if \<not> this < length (processes s) then Inl InvalidDereference
      else
        (case Thread_ctor MAX_THREAD_PRIORITY entryPoint priority parameter of
           Inl e \<Rightarrow> Inl e
         | Inr t \<Rightarrow>
             (let (handle, s1) = new_node s;
                  (ph, P) = processes s1 ! this;
                  s2 = s1\<lparr>processes :=
                            (processes s1)[this := (ph, P\<lparr>p_threads := p_threads P @ [(handle, t)]\<rparr>)]\<rparr>
              in (case AddReadyThread s2 handle of
                    Inl e \<Rightarrow> Inl e
                  | Inr s3 \<Rightarrow> Inr (handle, s3)))))"

definition CreateProcess ::
  "32 word \<Rightarrow> kernel \<Rightarrow> string \<Rightarrow> 32 word \<Rightarrow> ThreadMain_t \<Rightarrow> error + (HANDLE \<times> kernel)"
  where
  "CreateProcess MAX_THREAD_PRIORITY s name mainThreadPriority entryPoint =
     (let (ph, s1) = new_node s;
          it = length (processes s1);
          s2 = s1\<lparr>processes := processes s1 @ [(ph, Process_ctor name)]\<rparr>
      in (case Process_AddThread MAX_THREAD_PRIORITY s2 it entryPoint mainThreadPriority 0 of
            Inl e \<Rightarrow> Inl e
          | Inr (th, s3) \<Rightarrow> Inr (ph, s3)))"

definition StartScheduler :: "32 word \<Rightarrow> kernel \<Rightarrow> error + kernel" where
  "StartScheduler MAX_THREAD_PRIORITY s =
     (if idleProcess s \<noteq> 0 then Inl (Fatal NoIdleProcessYet)
      else
        (case CreateProcess MAX_THREAD_PRIORITY s ''System Idle'' 0 IdleThreadMain of
           Inl e \<Rightarrow> Inl e
         | Inr (h, s1) \<Rightarrow> Inr (s1\<lparr>idleProcess := h, schedulerTimer := True\<rparr>)))"

text \<open>
  The loop of \<open>SelectNextSwitchToThread\<close> over \<open>rbegin() .. rend()\<close>: \<open>n\<close> slots are
  still to be visited, the next one is slot \<open>n - 1\<close>.
\<close>

primrec scan_ready :: "HANDLE list list \<Rightarrow> nat \<Rightarrow> thread_handle_it" where
  "scan_ready rq 0 = None"
| "scan_ready rq (Suc p) = (if rq ! p \<noteq> [] then Some (p, 0) else scan_ready rq p)"

definition SelectNextSwitchToThread :: "kernel \<Rightarrow> error + thread_handle_it" where
  "SelectNextSwitchToThread s =
     (let threadSwitchTo0 = None;
          threadSwitchTo1 =
            (if good (runningThread s)
             then (let next = it_next (readyThreads s) (runningThread s)
                   in if good next then next else threadSwitchTo0)
             else threadSwitchTo0);
          threadSwitchTo =
            (if \<not> good threadSwitchTo1
             then scan_ready (readyThreads s) (length (readyThreads s))
             else threadSwitchTo1)
      in if good threadSwitchTo then Inr threadSwitchTo
         else Inl (Fatal SwitchToThreadGood))"

text \<open>
  \<open>SwitchThreadContext\<close> returns a reference to the context of the selected thread.
  Forming the reference reads nothing from the thread node.
\<close>

definition SwitchThreadContext :: "kernel \<Rightarrow> error + (context_ref \<times> kernel)" where
  "SwitchThreadContext s =
     (case SelectNextSwitchToThread s of
        Inl e \<Rightarrow> Inl e
      | Inr nextThread \<Rightarrow>
          (let s1 = s\<lparr>runningThread := nextThread\<rparr>
           in (case it_deref (readyThreads s1) nextThread of
                 None \<Rightarrow> Inl InvalidDereference
               | Some h \<Rightarrow> Inr (ContextOf h, s1))))"

definition Kernel_SwitchThreadContext :: "kernel \<Rightarrow> error + kernel" where
  "Kernel_SwitchThreadContext s =
     (case SwitchThreadContext s of
        Inl e \<Rightarrow> Inl e
      | Inr (arch, s1) \<Rightarrow> Inr (s1\<lparr>g_CurrentThreadContext := Some arch\<rparr>))"

definition GetProcess :: "kernel \<Rightarrow> HANDLE \<Rightarrow> error + Process" where
  "GetProcess s handle =
     (if handle = 0 then Inl (Fatal HandleNonNull)
      else (case find_process s handle of
              None \<Rightarrow> Inl InvalidDereference
            | Some P \<Rightarrow> Inr P))"

subsection \<open>The ready-set invariant\<close>

text \<open>
  A thread with handle \<open>h\<close> is in the ready set once: its priority is a slot of the
  array, that slot holds \<open>h\<close> exactly once, and no other slot holds it.
\<close>

definition ready_once :: "HANDLE list list \<Rightarrow> HANDLE \<Rightarrow> Thread \<Rightarrow> bool" where
  "ready_once rq h t =
     (unat (t_priority t) < length rq \<and>
      (\<forall>p\<in>{..<length rq}. count_list (rq ! p) h = (if p = unat (t_priority t) then 1 else 0)))"

definition ready_set_inv :: "kernel \<Rightarrow> bool" where
  "ready_set_inv s = (\<forall>ht\<in>set (all_threads s). ready_once (readyThreads s) (fst ht) (snd ht))"

text \<open>No slot loses an entry: every slot of the old state is a prefix of the new one.\<close>

definition ready_kept :: "kernel \<Rightarrow> kernel \<Rightarrow> bool" where
  "ready_kept s s' = list_all2 prefix (readyThreads s) (readyThreads s')"

text \<open>
  Every handle in the state is the address of a node that has been handed out. This is
  what makes the address of a new node fresh.
\<close>

definition handles_allocated :: "kernel \<Rightarrow> bool" where
  "handles_allocated s =
     ((\<forall>hp\<in>set (processes s). fst hp \<le> allocated s) \<and>
      (\<forall>ht\<in>set (all_threads s). fst ht \<le> allocated s) \<and>
      (\<forall>q\<in>set (readyThreads s). \<forall>h\<in>set q. h \<le> allocated s))"

text \<open>
  The state in which \<open>Process::AddThread\<close> calls \<open>AddReadyThread\<close>: the thread named by
  \<open>handle\<close> has been created and is in no slot yet, the handle names one thread only, and
  every other created thread is in the ready set once.
\<close>

definition pending :: "kernel \<Rightarrow> HANDLE \<Rightarrow> bool" where
  "pending s handle =
     ((\<forall>q\<in>set (readyThreads s). handle \<notin> set q) \<and>
      (\<forall>ht\<in>set (all_threads s).
         if fst ht = handle then find_thread s handle = Some (snd ht)
         else ready_once (readyThreads s) (fst ht) (snd ht)))"

subsection \<open>Example states\<close>

text \<open>
  The state after \<open>CreateProcess("A", 3, 1)\<close>, \<open>CreateProcess("B", 3, 2)\<close> and
  \<open>StartScheduler()\<close> on a manager with four ready-queue slots and
  \<open>MAX_THREAD_PRIORITY = 3\<close>, before the first context switch.
\<close>

definition mk_thread :: "32 word \<Rightarrow> ThreadMain_t \<Rightarrow> Thread" where
  "mk_thread p e =
     \<lparr>t_priority = p,
      t_threadContext = \<lparr>ctx_entryPoint = e, ctx_returnAddress = OnThreadExit, ctx_parameter = 0\<rparr>\<rparr>"

definition two_procs :: kernel where
  "two_procs =
     \<lparr>processes =
        [(1, \<lparr>p_name = ''A'', p_threads = [(2, mk_thread 3 (EntryPoint 1))]\<rparr>),
         (3, \<lparr>p_name = ''B'', p_threads = [(4, mk_thread 3 (EntryPoint 2))]\<rparr>)],
      readyThreads = [[], [], [], [2, 4]], runningThread = None, idleProcess = 0,
      g_CurrentThreadContext = None, schedulerTimer = False, allocated = 4\<rparr>"

definition started :: kernel where
  "started =
     \<lparr>processes =
        [(1, \<lparr>p_name = ''A'', p_threads = [(2, mk_thread 3 (EntryPoint 1))]\<rparr>),
         (3, \<lparr>p_name = ''B'', p_threads = [(4, mk_thread 3 (EntryPoint 2))]\<rparr>),
         (5, \<lparr>p_name = ''System Idle'', p_threads = [(6, mk_thread 0 IdleThreadMain)]\<rparr>)],
      readyThreads = [[6], [], [], [2, 4]], runningThread = None, idleProcess = 5,
      g_CurrentThreadContext = None, schedulerTimer = True, allocated = 6\<rparr>"

section \<open>Properties\<close>

subsection \<open>Selecting the next thread\<close>

lemma scan_ready_highest:
  "q < n \<Longrightarrow> rq ! q \<noteq> [] \<Longrightarrow> \<forall>q'\<in>{q<..<n}. rq ! q' = [] \<Longrightarrow> scan_ready rq n = Some (q, 0)"
proof (induction n)
  case 0
  then show ?case by simp
next
  case (Suc n)
  show ?case
  proof (cases "q = n")
    case True
    with Suc.prems show ?thesis by simp
  next
    case False
    with Suc.prems have "q < n" and "rq ! n = []" by auto
    moreover from Suc.prems have "\<forall>q'\<in>{q<..<n}. rq ! q' = []" by auto
    ultimately show ?thesis using Suc.IH Suc.prems(2) by simp
  qed
qed

lemma scan_ready_None: "scan_ready rq n = None \<longleftrightarrow> (\<forall>q<n. rq ! q = [])"
  by (induction n) (auto simp: less_Suc_eq)

lemma scan_ready_Some:
  "scan_ready rq n = Some (q, i) \<Longrightarrow>
     q < n \<and> i = 0 \<and> rq ! q \<noteq> [] \<and> (\<forall>q'\<in>{q<..<n}. rq ! q' = [])"
proof (induction n)
  case 0
  then show ?case by simp
next
  case (Suc n)
  show ?case
  proof (cases "rq ! n = []")
    case True
    with Suc.prems have "scan_ready rq n = Some (q, i)" by simp
    from Suc.IH [OF this] True show ?thesis
      by (auto simp: less_Suc_eq)
  next
    case False
    with Suc.prems show ?thesis by auto
  qed
qed

lemma Select_successor:
  "runningThread s = Some (p, i) \<Longrightarrow> p < length (readyThreads s) \<Longrightarrow>
   Suc i < length (readyThreads s ! p) \<Longrightarrow>
   SelectNextSwitchToThread s = Inr (Some (p, Suc i))"
  by (simp add: SelectNextSwitchToThread_def good_def it_next_def)

lemma Select_fallback:
  "runningThread s = None \<or>
     (\<exists>p i. runningThread s = Some (p, i) \<and> \<not> Suc i < length (readyThreads s ! p)) \<Longrightarrow>
   SelectNextSwitchToThread s =
     (case scan_ready (readyThreads s) (length (readyThreads s)) of
        None \<Rightarrow> Inl (Fatal SwitchToThreadGood)
      | Some c \<Rightarrow> Inr (Some c))"
  by (auto simp: SelectNextSwitchToThread_def good_def it_next_def split: option.splits)

text \<open>
  C1. When the running-thread cursor designates an entry \<open>(p, i)\<close> that has a successor
  in its slot, \<open>SelectNextSwitchToThread\<close> returns that successor. When there is no
  running thread, or the running thread is the last entry of its slot, it returns the
  first entry of the non-empty slot \<open>q\<close> with the highest index.
\<close>

theorem SelectNextSwitchToThread_round_robin_then_highest:
  "(runningThread s = Some (p, i) \<and> p < length (readyThreads s) \<and>
      Suc i < length (readyThreads s ! p)
      \<longrightarrow> SelectNextSwitchToThread s = Inr (Some (p, Suc i)))
   \<and>
   ((runningThread s = None \<or>
       (runningThread s = Some (p, i) \<and> p < length (readyThreads s) \<and>
        Suc i = length (readyThreads s ! p))) \<and>
    q < length (readyThreads s) \<and> readyThreads s ! q \<noteq> [] \<and>
    (\<forall>q'\<in>{q<..<length (readyThreads s)}. readyThreads s ! q' = [])
      \<longrightarrow> SelectNextSwitchToThread s = Inr (Some (q, 0)))"
proof (intro conjI impI)
  assume "runningThread s = Some (p, i) \<and> p < length (readyThreads s) \<and>
      Suc i < length (readyThreads s ! p)"
  then show "SelectNextSwitchToThread s = Inr (Some (p, Suc i))"
    by (simp add: Select_successor)
next
  assume a: "(runningThread s = None \<or>
       (runningThread s = Some (p, i) \<and> p < length (readyThreads s) \<and>
        Suc i = length (readyThreads s ! p))) \<and>
    q < length (readyThreads s) \<and> readyThreads s ! q \<noteq> [] \<and>
    (\<forall>q'\<in>{q<..<length (readyThreads s)}. readyThreads s ! q' = [])"
  then have "scan_ready (readyThreads s) (length (readyThreads s)) = Some (q, 0)"
    by (simp add: scan_ready_highest)
  moreover from a have "runningThread s = None \<or>
     (\<exists>p i. runningThread s = Some (p, i) \<and> \<not> Suc i < length (readyThreads s ! p))"
    by auto
  ultimately show "SelectNextSwitchToThread s = Inr (Some (q, 0))"
    by (simp add: Select_fallback)
qed

theorem SelectNextSwitchToThread_round_robin_then_highest_witness:
  "SelectNextSwitchToThread (started\<lparr>runningThread := Some (3, 0)\<rparr>) = Inr (Some (3, 1)) \<and>
   SelectNextSwitchToThread (started\<lparr>runningThread := Some (3, 1)\<rparr>) = Inr (Some (3, 0)) \<and>
   SelectNextSwitchToThread started = Inr (Some (3, 0))"
  using SelectNextSwitchToThread_round_robin_then_highest
          [of "started\<lparr>runningThread := Some (3, 0)\<rparr>" 3 0 3]
    SelectNextSwitchToThread_round_robin_then_highest
          [of "started\<lparr>runningThread := Some (3, 1)\<rparr>" 3 1 3]
    SelectNextSwitchToThread_round_robin_then_highest [of started 0 0 3]
  by (simp add: started_def)

text \<open>
  C2. When the running thread has no successor in its slot, or there is no running
  thread: if slot \<open>q\<close> is non-empty and every slot above \<open>q\<close> is empty, the selection is
  the first entry of slot \<open>q\<close>, whose handle is the head of that slot. The front entry of
  slot 0, where the idle thread sits, is then selected only when all slots from 1 upwards
  are empty.
\<close>

theorem fallback_scan_priority_precedence:
  assumes "runningThread s = None \<or>
     (\<exists>p i. runningThread s = Some (p, i) \<and> \<not> Suc i < length (readyThreads s ! p))"
  shows "(q < length (readyThreads s) \<and> readyThreads s ! q \<noteq> [] \<and>
          (\<forall>q'\<in>{q<..<length (readyThreads s)}. readyThreads s ! q' = [])
          \<longrightarrow> SelectNextSwitchToThread s = Inr (Some (q, 0)) \<and>
              it_deref (readyThreads s) (Some (q, 0)) = Some (hd (readyThreads s ! q)))
         \<and>
         (SelectNextSwitchToThread s = Inr (Some (0, 0))
          \<longrightarrow> (\<forall>q'\<in>{0<..<length (readyThreads s)}. readyThreads s ! q' = []))"
proof (intro conjI impI)
  assume a: "q < length (readyThreads s) \<and> readyThreads s ! q \<noteq> [] \<and>
          (\<forall>q'\<in>{q<..<length (readyThreads s)}. readyThreads s ! q' = [])"
  then have "scan_ready (readyThreads s) (length (readyThreads s)) = Some (q, 0)"
    by (simp add: scan_ready_highest)
  with assms show "SelectNextSwitchToThread s = Inr (Some (q, 0))"
    by (simp add: Select_fallback)
  from a show "it_deref (readyThreads s) (Some (q, 0)) = Some (hd (readyThreads s ! q))"
    by (simp add: it_deref_def hd_conv_nth)
next
  assume "SelectNextSwitchToThread s = Inr (Some (0, 0))"
  with assms have "scan_ready (readyThreads s) (length (readyThreads s)) = Some (0, 0)"
    by (simp add: Select_fallback split: option.splits)
  from scan_ready_Some [OF this]
  show "\<forall>q'\<in>{0<..<length (readyThreads s)}. readyThreads s ! q' = []"
    by simp
qed

theorem fallback_scan_priority_precedence_witness:
  "SelectNextSwitchToThread started = Inr (Some (3, 0)) \<and>
   it_deref (readyThreads started) (Some (3, 0)) = Some 2 \<and>
   SelectNextSwitchToThread (started\<lparr>readyThreads := [[6], [], [], []]\<rparr>) = Inr (Some (0, 0)) \<and>
   readyThreads (started\<lparr>readyThreads := [[6], [], [], []]\<rparr>) ! 1 = [] \<and>
   readyThreads (started\<lparr>readyThreads := [[6], [], [], []]\<rparr>) ! 2 = [] \<and>
   readyThreads (started\<lparr>readyThreads := [[6], [], [], []]\<rparr>) ! 3 = []"
proof -
  let ?idle = "started\<lparr>readyThreads := [[6], [], [], []]\<rparr>"
  have rq: "readyThreads started = [[6], [], [], [2, 4]]"
    and rq': "readyThreads ?idle = [[6], [], [], []]"
    and run: "runningThread started = None" "runningThread ?idle = None"
    by (simp_all add: started_def)
  have e: "\<forall>q'\<in>{0<..<length (readyThreads ?idle)}. readyThreads ?idle ! q' = []"
    unfolding rq' by (auto simp: less_Suc_eq numeral_3_eq_3 numeral_Bit0)
  have top: "3 < length (readyThreads started) \<and> readyThreads started ! 3 \<noteq> [] \<and>
          (\<forall>q'\<in>{3<..<length (readyThreads started)}. readyThreads started ! q' = [])"
    unfolding rq by simp
  have low: "0 < length (readyThreads ?idle) \<and> readyThreads ?idle ! 0 \<noteq> [] \<and>
          (\<forall>q'\<in>{0<..<length (readyThreads ?idle)}. readyThreads ?idle ! q' = [])"
    using e unfolding rq' by simp
  from fallback_scan_priority_precedence [of started 3] run(1) top
  have a: "SelectNextSwitchToThread started = Inr (Some (3, 0))"
    "it_deref (readyThreads started) (Some (3, 0)) = Some (hd (readyThreads started ! 3))"
    by blast+
  from fallback_scan_priority_precedence [of ?idle 0] run(2) low
  have b: "SelectNextSwitchToThread ?idle = Inr (Some (0, 0))" by blast
  from a(2) have c: "it_deref (readyThreads started) (Some (3, 0)) = Some 2"
    unfolding rq by simp
  from fallback_scan_priority_precedence [of ?idle 0] run(2) b
  have "\<forall>q'\<in>{0<..<length (readyThreads ?idle)}. readyThreads ?idle ! q' = []"
    by blast
  moreover have "1 \<in> {0<..<length (readyThreads ?idle)}" "2 \<in> {0<..<length (readyThreads ?idle)}"
    "3 \<in> {0<..<length (readyThreads ?idle)}"
    unfolding rq' by simp_all
  ultimately have "readyThreads ?idle ! 1 = []" "readyThreads ?idle ! 2 = []"
    "readyThreads ?idle ! 3 = []"
    by blast+
  with a(1) b c show ?thesis by blast
qed

subsection \<open>Thread construction\<close>

text \<open>
  C8. Constructing a thread fails, with the fatal assertion on the priority, exactly when
  the priority is greater than \<open>MAX_THREAD_PRIORITY\<close>; with priority equal to
  \<open>MAX_THREAD_PRIORITY\<close> it succeeds.
\<close>

theorem Thread_ctor_priority_check:
  "((\<exists>e. Thread_ctor MAX_THREAD_PRIORITY entryPoint priority parameter = Inl e)
      \<longleftrightarrow> MAX_THREAD_PRIORITY < priority)
   \<and> (Thread_ctor MAX_THREAD_PRIORITY entryPoint priority parameter = Inl (Fatal PriorityAtMostMax)
      \<longleftrightarrow> MAX_THREAD_PRIORITY < priority)
   \<and> (\<exists>t. Thread_ctor MAX_THREAD_PRIORITY entryPoint MAX_THREAD_PRIORITY parameter = Inr t \<and>
          t_priority t = MAX_THREAD_PRIORITY)"
  by (auto simp: Thread_ctor_def)

subsection \<open>Resolving a process handle\<close>

text \<open>
  C10. \<open>GetProcess\<close> fails with a fatal assertion for the null handle and for no other
  handle; for a handle that is not null it returns the process entry the handle refers
  to. \<open>AddReadyThread\<close>, the other operation that takes a handle, has no assertion on
  the handle.
\<close>

theorem GetProcess_null_check:
  "GetProcess s 0 = Inl (Fatal HandleNonNull) \<and>
   (GetProcess s handle = Inl (Fatal k) \<longleftrightarrow> handle = 0 \<and> k = HandleNonNull) \<and>
   (handle \<noteq> 0 \<and> find_process s handle = Some P \<longrightarrow> GetProcess s handle = Inr P) \<and>
   AddReadyThread s handle \<noteq> Inl (Fatal HandleNonNull)"
  by (auto simp: GetProcess_def AddReadyThread_def Let_def split: option.splits)

theorem GetProcess_null_check_witness:
  "GetProcess started 0 = Inl (Fatal HandleNonNull) \<and>
   GetProcess started 3 = Inr \<lparr>p_name = ''B'', p_threads = [(4, mk_thread 3 (EntryPoint 2))]\<rparr>"
  using GetProcess_null_check [of started 3 HandleNonNull
      "\<lparr>p_name = ''B'', p_threads = [(4, mk_thread 3 (EntryPoint 2))]\<rparr>"]
  by (simp add: started_def find_process_def)

subsection \<open>Ready-queue insertion\<close>

lemma all_threads_two_procs:
  "all_threads two_procs = [(2, mk_thread 3 (EntryPoint 1)), (4, mk_thread 3 (EntryPoint 2))]"
  by (simp add: all_threads_def two_procs_def)

lemma all_threads_started:
  "all_threads started =
     [(2, mk_thread 3 (EntryPoint 1)), (4, mk_thread 3 (EntryPoint 2)), (6, mk_thread 0 IdleThreadMain)]"
  by (simp add: all_threads_def started_def)

lemma all_threads_readyThreads_update [simp]:
  "all_threads (s\<lparr>readyThreads := rq\<rparr>) = all_threads s"
  by (simp add: all_threads_def)

lemma find_thread_readyThreads_update [simp]:
  "find_thread (s\<lparr>readyThreads := rq\<rparr>) h = find_thread s h"
  by (simp add: find_thread_def)

lemma find_thread_fresh:
  "handles_allocated s \<Longrightarrow> allocated s < h \<Longrightarrow> find_thread s h = None"
  by (force simp: handles_allocated_def find_thread_def map_of_eq_None_iff)

lemma not_in_ready_fresh:
  "handles_allocated s \<Longrightarrow> allocated s < h \<Longrightarrow> q \<in> set (readyThreads s) \<Longrightarrow> h \<notin> set q"
  by (force simp: handles_allocated_def)

lemma AddReadyThread_eq:
  assumes "find_thread s handle = Some t"
  shows "AddReadyThread s handle =
     (if unat (t_priority t) < length (readyThreads s)
      then Inr (s\<lparr>readyThreads := (readyThreads s)[unat (t_priority t) :=
                     readyThreads s ! unat (t_priority t) @ [handle]]\<rparr>)
      else Inl (Fatal PriorityInReadyBounds))"
  using assms by (simp add: AddReadyThread_def Let_def)

text \<open>
  C6. For a handle that resolves to a thread \<open>t\<close>: when the priority of \<open>t\<close> is below the
  size of the ready-queue array, \<open>AddReadyThread\<close> succeeds, changes nothing but the slot
  of that priority, to which it appends the handle at the tail, and the slot is not empty
  afterwards. Otherwise it fails with the fatal assertion on the bounds.
\<close>

theorem AddReadyThread_appends_at_tail:
  assumes "find_thread s handle = Some t"
  shows "(unat (t_priority t) < length (readyThreads s) \<longrightarrow>
          (\<exists>s'. AddReadyThread s handle = Inr s' \<and>
             s' = s\<lparr>readyThreads := (readyThreads s)[unat (t_priority t) :=
                     readyThreads s ! unat (t_priority t) @ [handle]]\<rparr> \<and>
             readyThreads s' ! unat (t_priority t) =
               readyThreads s ! unat (t_priority t) @ [handle] \<and>
             readyThreads s' ! unat (t_priority t) \<noteq> []))
         \<and>
         (\<not> unat (t_priority t) < length (readyThreads s) \<longrightarrow>
            AddReadyThread s handle = Inl (Fatal PriorityInReadyBounds))"
  by (simp add: AddReadyThread_eq [OF assms])

theorem AddReadyThread_appends_at_tail_witness:
  "AddReadyThread two_procs 4 = Inr (two_procs\<lparr>readyThreads := [[], [], [], [2, 4, 4]]\<rparr>) \<and>
   AddReadyThread (two_procs\<lparr>readyThreads := [[], [], [2, 4]]\<rparr>) 4 = Inl (Fatal PriorityInReadyBounds)"
proof -
  let ?small = "two_procs\<lparr>readyThreads := [[], [], [2, 4]]\<rparr>"
  have f1: "find_thread two_procs 4 = Some (mk_thread 3 (EntryPoint 2))"
    unfolding find_thread_def all_threads_two_procs by simp
  then have f2: "find_thread ?small 4 = Some (mk_thread 3 (EntryPoint 2))"
    by simp
  have p: "unat (t_priority (mk_thread 3 (EntryPoint 2))) = 3"
    by (simp add: mk_thread_def)
  have rq: "readyThreads two_procs = [[], [], [], [2, 4]]" "readyThreads ?small = [[], [], [2, 4]]"
    by (simp_all add: two_procs_def)
  have u: "[[], [], [], [2, 4]][3 := [[], [], [], [2, 4]] ! 3 @ [4]] = [[], [], [], [2, 4, 4::nat]]"
    by (simp add: numeral_3_eq_3)
  from AddReadyThread_appends_at_tail [OF f1]
  have a: "AddReadyThread two_procs 4 = Inr (two_procs\<lparr>readyThreads := [[], [], [], [2, 4, 4]]\<rparr>)"
    unfolding p rq u by simp
  from AddReadyThread_appends_at_tail [OF f2]
  have b: "AddReadyThread ?small 4 = Inl (Fatal PriorityInReadyBounds)"
    unfolding p rq by simp
  from a b show ?thesis by simp
qed

subsection \<open>Adding a thread to a process\<close>

lemma map_of_fresh_key:
  "k \<notin> fst ` set xs \<Longrightarrow> map_of (xs @ (k, v) # ys) k = Some v"
  by (simp add: map_add_def map_of_eq_None_iff [THEN iffD2])

lemma all_threads_split:
  assumes "this < length (processes s)"
  shows "all_threads s =
     concat (map (\<lambda>hp. p_threads (snd hp)) (take this (processes s))) @
     p_threads (snd (processes s ! this)) @
     concat (map (\<lambda>hp. p_threads (snd hp)) (drop (Suc this) (processes s)))"
proof -
  have "processes s = take this (processes s) @ processes s ! this # drop (Suc this) (processes s)"
    using assms by (rule id_take_nth_drop)
  then have "all_threads s = concat (map (\<lambda>hp. p_threads (snd hp))
      (take this (processes s) @ processes s ! this # drop (Suc this) (processes s)))"
    by (simp add: all_threads_def)
  then show ?thesis by simp
qed

lemma all_threads_thread_added:
  assumes "this < length (processes s)"
  shows "all_threads (s\<lparr>processes := (processes s)[this :=
            (ph, P\<lparr>p_threads := p_threads (snd (processes s ! this)) @ [x]\<rparr>)]\<rparr>) =
     (concat (map (\<lambda>hp. p_threads (snd hp)) (take this (processes s))) @
      p_threads (snd (processes s ! this))) @ x #
     concat (map (\<lambda>hp. p_threads (snd hp)) (drop (Suc this) (processes s)))"
  using assms by (simp add: all_threads_def upd_conv_take_nth_drop)

lemma set_all_threads_thread_added:
  assumes "this < length (processes s)"
  shows "set (all_threads (s\<lparr>processes := (processes s)[this :=
            (ph, P\<lparr>p_threads := p_threads (snd (processes s ! this)) @ [x]\<rparr>)]\<rparr>)) =
         insert x (set (all_threads s))"
  unfolding all_threads_thread_added [OF assms]
  by (subst all_threads_split [OF assms]) auto

lemma find_thread_thread_added:
  assumes "this < length (processes s)" and "h \<notin> fst ` set (all_threads s)"
  shows "find_thread (s\<lparr>processes := (processes s)[this :=
            (ph, P\<lparr>p_threads := p_threads (snd (processes s ! this)) @ [(h, t)]\<rparr>)]\<rparr>) h = Some t"
proof -
  from assms(2) have "h \<notin> fst ` set (concat (map (\<lambda>hp. p_threads (snd hp)) (take this (processes s))) @
      p_threads (snd (processes s ! this)))"
    by (subst (asm) all_threads_split [OF assms(1)]) auto
  then show ?thesis
    unfolding find_thread_def all_threads_thread_added [OF assms(1)]
    by (rule map_of_fresh_key)
qed

lemma fresh_not_thread:
  "handles_allocated s \<Longrightarrow> allocated s < h \<Longrightarrow> h \<notin> fst ` set (all_threads s)"
  by (force simp: handles_allocated_def)

lemma Process_AddThread_eq:
  assumes "this < length (processes s)" and "priority \<le> MAX_THREAD_PRIORITY"
    and "unat priority < length (readyThreads s)" and "handles_allocated s"
  shows "Process_AddThread MAX_THREAD_PRIORITY s this entryPoint priority parameter =
     Inr (Suc (allocated s),
          s\<lparr>processes := (processes s)[this :=
                (fst (processes s ! this),
                 (snd (processes s ! this))\<lparr>p_threads := p_threads (snd (processes s ! this)) @
                    [(Suc (allocated s),
                      \<lparr>t_priority = priority,
                       t_threadContext = \<lparr>ctx_entryPoint = entryPoint,
                                         ctx_returnAddress = OnThreadExit,
                                         ctx_parameter = parameter\<rparr>\<rparr>)]\<rparr>)],
            readyThreads := (readyThreads s)[unat priority :=
                readyThreads s ! unat priority @ [Suc (allocated s)]],
            allocated := Suc (allocated s)\<rparr>)"
proof -
  let ?t = "\<lparr>t_priority = priority,
             t_threadContext = \<lparr>ctx_entryPoint = entryPoint, ctx_returnAddress = OnThreadExit,
                               ctx_parameter = parameter\<rparr>\<rparr>"
  let ?h = "Suc (allocated s)"
  let ?s1 = "s\<lparr>allocated := ?h\<rparr>"
  let ?s2 = "?s1\<lparr>processes := (processes ?s1)[this :=
                (fst (processes s ! this),
                 (snd (processes s ! this))\<lparr>p_threads := p_threads (snd (processes ?s1 ! this)) @ [(?h, ?t)]\<rparr>)]\<rparr>"
  have "?h \<notin> fst ` set (all_threads s)"
    using assms(4) by (simp add: fresh_not_thread)
  then have "?h \<notin> fst ` set (all_threads ?s1)"
    by (simp add: all_threads_def)
  moreover have "this < length (processes ?s1)" using assms(1) by simp
  ultimately have ft: "find_thread ?s2 ?h = Some ?t"
    by (rule find_thread_thread_added [rotated])
  have ar: "AddReadyThread ?s2 ?h =
      Inr (?s2\<lparr>readyThreads := (readyThreads ?s2)[unat (t_priority ?t) :=
                     readyThreads ?s2 ! unat (t_priority ?t) @ [?h]]\<rparr>)"
    using AddReadyThread_eq [OF ft] assms(3) by simp
  have tc: "Thread_ctor MAX_THREAD_PRIORITY entryPoint priority parameter = Inr ?t"
    using assms(2) by (simp add: Thread_ctor_def)
  have "Process_AddThread MAX_THREAD_PRIORITY s this entryPoint priority parameter =
     (case AddReadyThread ?s2 ?h of Inl e \<Rightarrow> Inl e | Inr s3 \<Rightarrow> Inr (?h, s3))"
    using assms(1)
    by (simp add: Process_AddThread_def tc new_node_def Let_def case_prod_unfold split: sum.splits)
  then show ?thesis
    unfolding ar by simp
qed

subsection \<open>Creating a process\<close>

lemma all_threads_process_appended:
  "all_threads (s\<lparr>allocated := a, processes := processes s @ [(ph, Process_ctor name)]\<rparr>) =
   all_threads s"
  by (simp add: all_threads_def Process_ctor_def)

lemma handles_allocated_process_appended:
  assumes "handles_allocated s"
  shows "handles_allocated (s\<lparr>allocated := Suc (allocated s),
            processes := processes s @ [(Suc (allocated s), Process_ctor name)]\<rparr>)"
  unfolding handles_allocated_def all_threads_process_appended
  using assms by (auto simp: handles_allocated_def le_Suc_eq)

lemma CreateProcess_eq:
  assumes "priority \<le> MAX_THREAD_PRIORITY" and "unat priority < length (readyThreads s)"
    and "handles_allocated s"
  shows "CreateProcess MAX_THREAD_PRIORITY s name priority entryPoint =
     Inr (Suc (allocated s),
          s\<lparr>processes := processes s @
                [(Suc (allocated s),
                  \<lparr>p_name = name,
                   p_threads = [(Suc (Suc (allocated s)),
                      \<lparr>t_priority = priority,
                       t_threadContext = \<lparr>ctx_entryPoint = entryPoint,
                                         ctx_returnAddress = OnThreadExit,
                                         ctx_parameter = 0\<rparr>\<rparr>)]\<rparr>)],
            readyThreads := (readyThreads s)[unat priority :=
                readyThreads s ! unat priority @ [Suc (Suc (allocated s))]],
            allocated := Suc (Suc (allocated s))\<rparr>)"
proof -
  let ?s2 = "s\<lparr>allocated := Suc (allocated s),
            processes := processes s @ [(Suc (allocated s), Process_ctor name)]\<rparr>"
  have h: "handles_allocated ?s2"
    using assms(3) by (rule handles_allocated_process_appended)
  have l: "length (processes s) < length (processes ?s2)" by simp
  have r: "unat priority < length (readyThreads ?s2)" using assms(2) by simp
  have "CreateProcess MAX_THREAD_PRIORITY s name priority entryPoint =
     (case Process_AddThread MAX_THREAD_PRIORITY ?s2 (length (processes s)) entryPoint priority 0 of
        Inl e \<Rightarrow> Inl e | Inr (th, s3) \<Rightarrow> Inr (Suc (allocated s), s3))"
    by (simp add: CreateProcess_def new_node_def Let_def)
  then show ?thesis
    unfolding Process_AddThread_eq [OF l assms(1) r h]
    by (simp add: Process_ctor_def)
qed

text \<open>
  C4. For a priority that is at most \<open>MAX_THREAD_PRIORITY\<close> and a slot of the ready-queue
  array, \<open>CreateProcess\<close> succeeds: the process list gets exactly one new entry at its
  end, which has the given name and exactly one thread, with the given priority and entry
  point and parameter 0; the handle of that thread is appended to the slot of the
  priority, no other slot changes, and the returned handle is the handle of the new
  process entry, which is not null.
\<close>

theorem CreateProcess_creates_process_and_main_thread:
  assumes "priority \<le> MAX_THREAD_PRIORITY" and "unat priority < length (readyThreads s)"
    and "handles_allocated s"
  shows "\<exists>ph th s'.
     CreateProcess MAX_THREAD_PRIORITY s name priority entryPoint = Inr (ph, s') \<and>
     ph \<noteq> 0 \<and>
     processes s' = processes s @
        [(ph, \<lparr>p_name = name,
               p_threads = [(th, \<lparr>t_priority = priority,
                   t_threadContext = \<lparr>ctx_entryPoint = entryPoint,
                                     ctx_returnAddress = OnThreadExit,
                                     ctx_parameter = 0\<rparr>\<rparr>)]\<rparr>)] \<and>
     readyThreads s' = (readyThreads s)[unat priority := readyThreads s ! unat priority @ [th]] \<and>
     find_process s' ph = Some (snd (last (processes s'))) \<and>
     runningThread s' = runningThread s \<and> idleProcess s' = idleProcess s"
proof -
  have "Suc (allocated s) \<notin> fst ` set (processes s)"
    using assms(3) by (force simp: handles_allocated_def)
  then have "map_of (processes s) (Suc (allocated s)) = None"
    by (simp add: map_of_eq_None_iff)
  then show ?thesis
    unfolding CreateProcess_eq [OF assms]
    by (simp add: find_process_def map_add_def)
qed

theorem CreateProcess_creates_process_and_main_thread_witness:
  "\<exists>ph th s'.
     CreateProcess 3 (ProcessManager_ctor 4) ''A'' 3 (EntryPoint 1) = Inr (ph, s') \<and>
     ph \<noteq> 0 \<and>
     processes s' = [(ph, \<lparr>p_name = ''A'', p_threads = [(th, mk_thread 3 (EntryPoint 1))]\<rparr>)] \<and>
     readyThreads s' = [[], [], [], [th]]"
proof -
  have a: "(3::32 word) \<le> 3" by simp
  have b: "unat (3::32 word) < length (readyThreads (ProcessManager_ctor 4))"
    by (simp add: ProcessManager_ctor_def)
  have c: "handles_allocated (ProcessManager_ctor 4)"
    by (simp add: handles_allocated_def ProcessManager_ctor_def all_threads_def)
  have rq: "readyThreads (ProcessManager_ctor 4) = [[], [], [], []]"
    and ps: "processes (ProcessManager_ctor 4) = []"
    by (simp_all add: ProcessManager_ctor_def numeral_Bit0)
  have u: "[[], [], [], []][3 := [[], [], [], []] ! 3 @ [th]] = [[], [], [], [th]]" for th :: nat
    by (simp add: numeral_3_eq_3)
  have p: "unat (3::32 word) = 3" by simp
  from CreateProcess_creates_process_and_main_thread [OF a b c, of "''A''" "EntryPoint 1"]
  show ?thesis
    unfolding rq ps u p mk_thread_def by auto
qed

text \<open>The first step of the example scenario, evaluated.\<close>

lemma CreateProcess_example:
  "CreateProcess 3 (ProcessManager_ctor 4) ''A'' 3 (EntryPoint 1) =
     Inr (1, \<lparr>processes = [(1, \<lparr>p_name = ''A'', p_threads = [(2, mk_thread 3 (EntryPoint 1))]\<rparr>)],
              readyThreads = [[], [], [], [2]], runningThread = None, idleProcess = 0,
              g_CurrentThreadContext = None, schedulerTimer = False, allocated = 2\<rparr>)"
proof -
  have a: "(3::32 word) \<le> 3" by simp
  have b: "unat (3::32 word) < length (readyThreads (ProcessManager_ctor 4))"
    by (simp add: ProcessManager_ctor_def)
  have c: "handles_allocated (ProcessManager_ctor 4)"
    by (simp add: handles_allocated_def ProcessManager_ctor_def all_threads_def)
  have rq: "readyThreads (ProcessManager_ctor 4) = [[], [], [], []]"
    by (simp add: ProcessManager_ctor_def numeral_Bit0)
  have u: "[[], [], [], []][3 := [[], [], [], []] ! 3 @ [th]] = [[], [], [], [th]]" for th :: nat
    by (simp add: numeral_3_eq_3)
  show ?thesis
    unfolding CreateProcess_eq [OF a b c] unfolding rq u
    by (simp add: ProcessManager_ctor_def mk_thread_def)
qed

subsection \<open>Starting the scheduler\<close>

lemma StartScheduler_eq:
  assumes "idleProcess s = 0" and "0 < length (readyThreads s)" and "handles_allocated s"
  shows "StartScheduler MAX_THREAD_PRIORITY s =
     Inr (s\<lparr>processes := processes s @
                [(Suc (allocated s),
                  \<lparr>p_name = ''System Idle'',
                   p_threads = [(Suc (Suc (allocated s)),
                      \<lparr>t_priority = 0,
                       t_threadContext = \<lparr>ctx_entryPoint = IdleThreadMain,
                                         ctx_returnAddress = OnThreadExit,
                                         ctx_parameter = 0\<rparr>\<rparr>)]\<rparr>)],
            readyThreads := (readyThreads s)[0 := readyThreads s ! 0 @ [Suc (Suc (allocated s))]],
            idleProcess := Suc (allocated s),
            schedulerTimer := True,
            allocated := Suc (Suc (allocated s))\<rparr>)"
proof -
  have a: "(0::32 word) \<le> MAX_THREAD_PRIORITY" by simp
  have b: "unat (0::32 word) < length (readyThreads s)" using assms(2) by simp
  show ?thesis
    using assms(1)
    by (simp add: StartScheduler_def CreateProcess_eq [OF a b assms(3)])
qed

text \<open>
  C7. On a state without an idle process (and with at least one ready-queue slot),
  \<open>StartScheduler\<close> succeeds: it appends exactly one process, named "System Idle", whose
  one thread has priority 0 and the entry procedure \<open>IdleThreadMain\<close>; the handle of that
  thread is appended to slot 0, the handle of the process is recorded as the idle process
  and is not null, and the scheduler timer is set up. A second call, and any call on a
  state whose idle process is set, is a fatal assertion.
\<close>

theorem StartScheduler_creates_idle_process_once:
  "(idleProcess s = 0 \<and> 0 < length (readyThreads s) \<and> handles_allocated s \<longrightarrow>
      (\<exists>th s'. StartScheduler MAX_THREAD_PRIORITY s = Inr s' \<and>
         processes s' = processes s @
           [(idleProcess s',
             \<lparr>p_name = ''System Idle'',
              p_threads = [(th, \<lparr>t_priority = 0,
                  t_threadContext = \<lparr>ctx_entryPoint = IdleThreadMain,
                                    ctx_returnAddress = OnThreadExit,
                                    ctx_parameter = 0\<rparr>\<rparr>)]\<rparr>)] \<and>
         idleProcess s' \<noteq> 0 \<and>
         readyThreads s' ! 0 = readyThreads s ! 0 @ [th] \<and>
         schedulerTimer s' \<and>
         StartScheduler MAX_THREAD_PRIORITY s' = Inl (Fatal NoIdleProcessYet)))
   \<and> (idleProcess s \<noteq> 0 \<longrightarrow> StartScheduler MAX_THREAD_PRIORITY s = Inl (Fatal NoIdleProcessYet))"
proof (intro conjI impI)
  assume a: "idleProcess s = 0 \<and> 0 < length (readyThreads s) \<and> handles_allocated s"
  then have e: "StartScheduler MAX_THREAD_PRIORITY s = Inr (s\<lparr>processes := processes s @
                [(Suc (allocated s),
                  \<lparr>p_name = ''System Idle'',
                   p_threads = [(Suc (Suc (allocated s)),
                      \<lparr>t_priority = 0,
                       t_threadContext = \<lparr>ctx_entryPoint = IdleThreadMain,
                                         ctx_returnAddress = OnThreadExit,
                                         ctx_parameter = 0\<rparr>\<rparr>)]\<rparr>)],
            readyThreads := (readyThreads s)[0 := readyThreads s ! 0 @ [Suc (Suc (allocated s))]],
            idleProcess := Suc (allocated s),
            schedulerTimer := True,
            allocated := Suc (Suc (allocated s))\<rparr>)" (is "_ = Inr ?s'")
    by (simp add: StartScheduler_eq)
  have "StartScheduler MAX_THREAD_PRIORITY ?s' = Inl (Fatal NoIdleProcessYet)"
    by (simp add: StartScheduler_def)
  with e a show "\<exists>th s'. StartScheduler MAX_THREAD_PRIORITY s = Inr s' \<and>
         processes s' = processes s @
           [(idleProcess s',
             \<lparr>p_name = ''System Idle'',
              p_threads = [(th, \<lparr>t_priority = 0,
                  t_threadContext = \<lparr>ctx_entryPoint = IdleThreadMain,
                                    ctx_returnAddress = OnThreadExit,
                                    ctx_parameter = 0\<rparr>\<rparr>)]\<rparr>)] \<and>
         idleProcess s' \<noteq> 0 \<and>
         readyThreads s' ! 0 = readyThreads s ! 0 @ [th] \<and>
         schedulerTimer s' \<and>
         StartScheduler MAX_THREAD_PRIORITY s' = Inl (Fatal NoIdleProcessYet)"
    by simp
next
  assume "idleProcess s \<noteq> 0"
  then show "StartScheduler MAX_THREAD_PRIORITY s = Inl (Fatal NoIdleProcessYet)"
    by (simp add: StartScheduler_def)
qed

lemma handles_allocated_two_procs: "handles_allocated two_procs"
  unfolding handles_allocated_def all_threads_two_procs
  by (simp add: two_procs_def)

lemma StartScheduler_example: "StartScheduler 3 two_procs = Inr started"
proof -
  have a: "idleProcess two_procs = 0" and b: "0 < length (readyThreads two_procs)"
    by (simp_all add: two_procs_def)
  show ?thesis
    unfolding StartScheduler_eq [OF a b handles_allocated_two_procs]
    by (simp add: two_procs_def started_def mk_thread_def)
qed

theorem StartScheduler_creates_idle_process_once_witness:
  "(\<exists>th s'. StartScheduler 3 two_procs = Inr s' \<and>
       processes s' = processes two_procs @
          [(idleProcess s', \<lparr>p_name = ''System Idle'', p_threads = [(th, mk_thread 0 IdleThreadMain)]\<rparr>)] \<and>
       idleProcess s' \<noteq> 0 \<and>
       readyThreads s' ! 0 = [th] \<and>
       StartScheduler 3 s' = Inl (Fatal NoIdleProcessYet)) \<and>
   StartScheduler 3 started = Inl (Fatal NoIdleProcessYet)"
proof -
  have a: "idleProcess two_procs = 0 \<and> 0 < length (readyThreads two_procs) \<and>
           handles_allocated two_procs"
    using handles_allocated_two_procs by (simp add: two_procs_def)
  have b: "idleProcess started \<noteq> 0" by (simp add: started_def)
  have r: "readyThreads two_procs ! 0 = []" by (simp add: two_procs_def)
  from StartScheduler_creates_idle_process_once [of two_procs 3] a
  have "\<exists>th s'. StartScheduler 3 two_procs = Inr s' \<and>
       processes s' = processes two_procs @
          [(idleProcess s', \<lparr>p_name = ''System Idle'', p_threads = [(th, mk_thread 0 IdleThreadMain)]\<rparr>)] \<and>
       idleProcess s' \<noteq> 0 \<and>
       readyThreads s' ! 0 = [th] \<and>
       StartScheduler 3 s' = Inl (Fatal NoIdleProcessYet)"
    unfolding r mk_thread_def by auto
  moreover from StartScheduler_creates_idle_process_once [of started 3] b
  have "StartScheduler 3 started = Inl (Fatal NoIdleProcessYet)" by blast
  ultimately show ?thesis by blast
qed

subsection \<open>The selection always finds a thread\<close>

lemma Select_returns_entry:
  assumes ne: "\<exists>q\<in>set (readyThreads s). q \<noteq> []"
  shows "\<exists>p i. SelectNextSwitchToThread s = Inr (Some (p, i)) \<and>
                 p < length (readyThreads s) \<and> i < length (readyThreads s ! p)"
proof (cases "good (it_next (readyThreads s) (runningThread s))")
  case True
  then obtain p i where c: "it_next (readyThreads s) (runningThread s) = Some (p, i)"
    by (auto simp: good_def)
  then have "p < length (readyThreads s) \<and> i < length (readyThreads s ! p)"
    by (auto simp: it_next_def split: option.splits if_splits)
  moreover from True c have "SelectNextSwitchToThread s = Inr (Some (p, i))"
    by (auto simp: SelectNextSwitchToThread_def good_def it_next_def split: option.splits)
  ultimately show ?thesis by blast
next
  case False
  then have fb: "SelectNextSwitchToThread s =
     (case scan_ready (readyThreads s) (length (readyThreads s)) of
        None \<Rightarrow> Inl (Fatal SwitchToThreadGood) | Some c \<Rightarrow> Inr (Some c))"
    by (auto simp: SelectNextSwitchToThread_def good_def split: option.splits)
  from ne have "scan_ready (readyThreads s) (length (readyThreads s)) \<noteq> None"
    by (auto simp: scan_ready_None in_set_conv_nth)
  then obtain p i where sc: "scan_ready (readyThreads s) (length (readyThreads s)) = Some (p, i)"
    by auto
  from scan_ready_Some [OF sc] sc fb show ?thesis by auto
qed

lemma Select_fatal_only_if_all_empty:
  assumes f: "SelectNextSwitchToThread s = Inl e"
  shows "\<forall>q\<in>set (readyThreads s). q = []"
proof (rule ccontr)
  assume "\<not> (\<forall>q\<in>set (readyThreads s). q = [])"
  then have "\<exists>q\<in>set (readyThreads s). q \<noteq> []" by simp
  from Select_returns_entry [OF this] f show False by auto
qed

lemma AddReadyThread_nonempty:
  assumes "AddReadyThread s h = Inr s'"
  shows "\<exists>q\<in>set (readyThreads s'). q \<noteq> []"
proof -
  from assms obtain t where t: "find_thread s h = Some t"
    by (auto simp: AddReadyThread_def split: option.splits)
  let ?p = "unat (t_priority t)"
  from assms have b: "?p < length (readyThreads s)"
    and s': "s' = s\<lparr>readyThreads := (readyThreads s)[?p := readyThreads s ! ?p @ [h]]\<rparr>"
    unfolding AddReadyThread_eq [OF t] by (auto split: if_splits)
  from b have "readyThreads s ! ?p @ [h] \<in> set (readyThreads s')"
    unfolding s' by (simp add: set_update_memI)
  then show ?thesis by blast
qed

lemma Process_AddThread_nonempty:
  assumes "Process_AddThread mx s this e p a = Inr (h, s')"
  shows "\<exists>q\<in>set (readyThreads s'). q \<noteq> []"
proof -
  from assms obtain s2 h2 where "AddReadyThread s2 h2 = Inr s'"
    by (auto simp: Process_AddThread_def Let_def case_prod_unfold split: if_splits sum.splits)
  then show ?thesis by (rule AddReadyThread_nonempty)
qed

lemma CreateProcess_nonempty:
  assumes "CreateProcess mx s name p e = Inr (h, s')"
  shows "\<exists>q\<in>set (readyThreads s'). q \<noteq> []"
proof -
  from assms obtain s2 this th where "Process_AddThread mx s2 this e p 0 = Inr (th, s')"
    by (auto simp: CreateProcess_def Let_def case_prod_unfold split: sum.splits)
  then show ?thesis by (rule Process_AddThread_nonempty)
qed

lemma StartScheduler_nonempty:
  assumes "StartScheduler mx s = Inr s'"
  shows "\<exists>q\<in>set (readyThreads s'). q \<noteq> []"
proof -
  from assms obtain h s1 where c: "CreateProcess mx s ''System Idle'' 0 IdleThreadMain = Inr (h, s1)"
    and s': "s' = s1\<lparr>idleProcess := h, schedulerTimer := True\<rparr>"
    by (auto simp: StartScheduler_def split: if_splits sum.splits)
  from CreateProcess_nonempty [OF c] show ?thesis unfolding s' by simp
qed

text \<open>
  C3. When at least one ready-queue slot is non-empty, \<open>SelectNextSwitchToThread\<close>
  returns an entry that exists in the ready queues, so its fatal assertion is not
  reached; the assertion fails only when every slot is empty. A successful
  \<open>StartScheduler\<close> leaves a non-empty slot.
\<close>

theorem SelectNextSwitchToThread_finds_thread:
  "((\<exists>q\<in>set (readyThreads s). q \<noteq> [])
      \<longrightarrow> (\<exists>p i. SelectNextSwitchToThread s = Inr (Some (p, i)) \<and>
                 p < length (readyThreads s) \<and> i < length (readyThreads s ! p)))
   \<and> (SelectNextSwitchToThread s = Inl (Fatal SwitchToThreadGood)
      \<longrightarrow> (\<forall>q\<in>set (readyThreads s). q = []))
   \<and> (StartScheduler MAX_THREAD_PRIORITY s0 = Inr s
      \<longrightarrow> (\<exists>q\<in>set (readyThreads s). q \<noteq> []))"
proof (intro conjI impI)
  assume "\<exists>q\<in>set (readyThreads s). q \<noteq> []"
  then show "\<exists>p i. SelectNextSwitchToThread s = Inr (Some (p, i)) \<and>
                 p < length (readyThreads s) \<and> i < length (readyThreads s ! p)"
    by (rule Select_returns_entry)
next
  assume "SelectNextSwitchToThread s = Inl (Fatal SwitchToThreadGood)"
  then show "\<forall>q\<in>set (readyThreads s). q = []"
    by (rule Select_fatal_only_if_all_empty)
next
  assume "StartScheduler MAX_THREAD_PRIORITY s0 = Inr s"
  then show "\<exists>q\<in>set (readyThreads s). q \<noteq> []"
    by (rule StartScheduler_nonempty)
qed

theorem SelectNextSwitchToThread_finds_thread_witness:
  "(\<exists>p i. SelectNextSwitchToThread started = Inr (Some (p, i)) \<and>
                 p < length (readyThreads started) \<and> i < length (readyThreads started ! p)) \<and>
   SelectNextSwitchToThread (ProcessManager_ctor 2) = Inl (Fatal SwitchToThreadGood) \<and>
   set (readyThreads (ProcessManager_ctor 2)) \<subseteq> {[]}"
proof -
  have b: "SelectNextSwitchToThread (ProcessManager_ctor 2) = Inl (Fatal SwitchToThreadGood)"
    by (simp add: SelectNextSwitchToThread_def ProcessManager_ctor_def good_def numeral_2_eq_2)
  from SelectNextSwitchToThread_finds_thread [of started 3 two_procs] StartScheduler_example
  have "\<exists>p i. SelectNextSwitchToThread started = Inr (Some (p, i)) \<and>
                 p < length (readyThreads started) \<and> i < length (readyThreads started ! p)"
    by blast
  moreover from SelectNextSwitchToThread_finds_thread [of "ProcessManager_ctor 2"] b
  have "set (readyThreads (ProcessManager_ctor 2)) \<subseteq> {[]}" by blast
  ultimately show ?thesis using b by blast
qed

subsection \<open>The context switch\<close>

text \<open>
  C9. When at least one ready-queue slot is non-empty, one call of
  \<open>Kernel_SwitchThreadContext\<close> succeeds; it sets the running-thread cursor to the entry
  that \<open>SelectNextSwitchToThread\<close> returns, stores in \<open>g_CurrentThreadContext\<close> the
  reference to the context of the thread whose handle that entry holds, and changes
  nothing else: the ready queues and the process list are as before.
\<close>

theorem Kernel_SwitchThreadContext_publishes_selected:
  assumes "\<exists>q\<in>set (readyThreads s). q \<noteq> []"
  shows "\<exists>p i s'.
     SelectNextSwitchToThread s = Inr (Some (p, i)) \<and>
     p < length (readyThreads s) \<and> i < length (readyThreads s ! p) \<and>
     SwitchThreadContext s =
       Inr (ContextOf (readyThreads s ! p ! i), s\<lparr>runningThread := Some (p, i)\<rparr>) \<and>
     Kernel_SwitchThreadContext s = Inr s' \<and>
     s' = s\<lparr>runningThread := Some (p, i),
            g_CurrentThreadContext := Some (ContextOf (readyThreads s ! p ! i))\<rparr> \<and>
     readyThreads s' = readyThreads s \<and> processes s' = processes s"
proof -
  from Select_returns_entry [OF assms] obtain p i
    where sel: "SelectNextSwitchToThread s = Inr (Some (p, i))"
      and v: "p < length (readyThreads s)" "i < length (readyThreads s ! p)"
    by blast
  from sel v have sw: "SwitchThreadContext s =
       Inr (ContextOf (readyThreads s ! p ! i), s\<lparr>runningThread := Some (p, i)\<rparr>)"
    by (simp add: SwitchThreadContext_def it_deref_def)
  then have "Kernel_SwitchThreadContext s =
      Inr (s\<lparr>runningThread := Some (p, i),
            g_CurrentThreadContext := Some (ContextOf (readyThreads s ! p ! i))\<rparr>)"
    by (simp add: Kernel_SwitchThreadContext_def)
  with sel v sw show ?thesis by simp
qed

theorem Kernel_SwitchThreadContext_publishes_selected_witness:
  "\<exists>p i. SelectNextSwitchToThread started = Inr (Some (p, i)) \<and>
     Kernel_SwitchThreadContext started =
       Inr (started\<lparr>runningThread := Some (p, i),
            g_CurrentThreadContext := Some (ContextOf (readyThreads started ! p ! i))\<rparr>)"
proof -
  have a: "\<exists>q\<in>set (readyThreads started). q \<noteq> []" by (simp add: started_def)
  from Kernel_SwitchThreadContext_publishes_selected [OF a] show ?thesis by blast
qed

lemma Kernel_SwitchThreadContext_example:
  "Kernel_SwitchThreadContext started =
     Inr (started\<lparr>runningThread := Some (3, 0), g_CurrentThreadContext := Some (ContextOf 2)\<rparr>)"
proof -
  have "SelectNextSwitchToThread started = Inr (Some (3, 0))"
    by (simp add: SelectNextSwitchToThread_def good_def started_def)
  moreover have "it_deref (readyThreads started) (Some (3, 0)) = Some 2"
    by (simp add: it_deref_def started_def)
  ultimately show ?thesis
    by (simp add: Kernel_SwitchThreadContext_def SwitchThreadContext_def)
qed

subsection \<open>The ready-set invariant is preserved\<close>

lemma all_threads_allocated_update [simp]:
  "all_threads (s\<lparr>allocated := a\<rparr>) = all_threads s"
  by (simp add: all_threads_def)

lemma ready_once_append_other:
  assumes "h' \<noteq> h" and "slot < length rq"
  shows "ready_once (rq[slot := rq ! slot @ [h]]) h' t' = ready_once rq h' t'"
proof -
  have "count_list (rq[slot := rq ! slot @ [h]] ! p) h' = count_list (rq ! p) h'"
    if "p < length rq" for p
    using that assms by (cases "p = slot") simp_all
  then show ?thesis by (simp add: ready_once_def)
qed

lemma ready_once_append_new:
  assumes "\<forall>q\<in>set rq. h \<notin> set q" and "unat (t_priority t) < length rq"
  shows "ready_once (rq[unat (t_priority t) := rq ! unat (t_priority t) @ [h]]) h t"
proof -
  have z: "count_list (rq ! p) h = 0" if "p < length rq" for p
    using that assms(1) by (simp add: count_list_0_iff)
  have "count_list (rq[unat (t_priority t) := rq ! unat (t_priority t) @ [h]] ! p) h =
        (if p = unat (t_priority t) then 1 else 0)" if "p < length rq" for p
    using that z [OF that] by (cases "p = unat (t_priority t)") simp_all
  with assms(2) show ?thesis by (simp add: ready_once_def)
qed

lemma ready_set_inv_thread_added:
  assumes inv: "ready_set_inv s" and ha: "handles_allocated s"
    and lt: "this < length (processes s)"
    and pr: "unat (t_priority t) < length (readyThreads s)"
    and fresh: "allocated s < h"
  shows "ready_set_inv
     (s\<lparr>processes := (processes s)[this :=
            (ph, P\<lparr>p_threads := p_threads (snd (processes s ! this)) @ [(h, t)]\<rparr>)],
        readyThreads := (readyThreads s)[unat (t_priority t) :=
            readyThreads s ! unat (t_priority t) @ [h]],
        allocated := a\<rparr>)" (is "ready_set_inv ?s'")
proof -
  let ?rq' = "(readyThreads s)[unat (t_priority t) := readyThreads s ! unat (t_priority t) @ [h]]"
  have ats: "set (all_threads ?s') = insert (h, t) (set (all_threads s))"
    using set_all_threads_thread_added [OF lt, where ph = ph and P = P and x = "(h, t)"]
    by (simp add: all_threads_def)
  have new: "ready_once ?rq' h t"
    using ha fresh pr by (intro ready_once_append_new) (auto dest: not_in_ready_fresh)
  have old: "ready_once ?rq' h' t'" if "(h', t') \<in> set (all_threads s)" for h' t'
  proof -
    from that ha fresh have "h' \<noteq> h" by (force simp: handles_allocated_def)
    moreover from that inv have "ready_once (readyThreads s) h' t'"
      by (force simp: ready_set_inv_def)
    ultimately show ?thesis using pr by (simp add: ready_once_append_other)
  qed
  show ?thesis
    unfolding ready_set_inv_def ats using new old by auto
qed

lemma handles_allocated_thread_added:
  assumes ha: "handles_allocated s" and lt: "this < length (processes s)"
    and pr: "slot < length (readyThreads s)"
  shows "handles_allocated
     (s\<lparr>processes := (processes s)[this :=
            (fst (processes s ! this),
             P\<lparr>p_threads := p_threads (snd (processes s ! this)) @ [(Suc (allocated s), t)]\<rparr>)],
        readyThreads := (readyThreads s)[slot := readyThreads s ! slot @ [Suc (allocated s)]],
        allocated := Suc (allocated s)\<rparr>)" (is "handles_allocated ?s'")
proof -
  have ats: "set (all_threads ?s') = insert (Suc (allocated s), t) (set (all_threads s))"
    using set_all_threads_thread_added [OF lt, where ph = "fst (processes s ! this)" and P = P
        and x = "(Suc (allocated s), t)"]
    by (simp add: all_threads_def)
  have a: "fst hp \<le> Suc (allocated s)" if "hp \<in> set (processes ?s')" for hp
  proof -
    from that have "hp \<in> insert (fst (processes s ! this),
             P\<lparr>p_threads := p_threads (snd (processes s ! this)) @ [(Suc (allocated s), t)]\<rparr>)
           (set (processes s))"
      using set_update_subset_insert [of "processes s" this] by auto
    moreover have "fst (processes s ! this) \<le> allocated s"
      using ha lt by (simp add: handles_allocated_def)
    ultimately show ?thesis using ha by (auto simp: handles_allocated_def le_Suc_eq)
  qed
  have b: "fst ht \<le> Suc (allocated s)" if "ht \<in> set (all_threads ?s')" for ht
    using that ha unfolding ats by (auto simp: handles_allocated_def le_Suc_eq)
  have c: "h \<le> Suc (allocated s)" if "q \<in> set (readyThreads ?s')" and "h \<in> set q" for q h
  proof -
    from that(1) have "q \<in> insert (readyThreads s ! slot @ [Suc (allocated s)]) (set (readyThreads s))"
      using set_update_subset_insert [of "readyThreads s" slot] by auto
    moreover have "readyThreads s ! slot \<in> set (readyThreads s)" using pr by simp
    ultimately show ?thesis using ha that(2) by (auto simp: handles_allocated_def le_Suc_eq)
  qed
  show ?thesis
    unfolding handles_allocated_def using a b c by (auto simp del: all_threads_allocated_update)
qed

lemma ready_kept_append:
  "ready_kept s (s'\<lparr>readyThreads := (readyThreads s)[slot := readyThreads s ! slot @ [h]]\<rparr>)"
proof (cases "slot < length (readyThreads s)")
  case True
  then show ?thesis
    by (auto simp: ready_kept_def list_all2_conv_all_nth nth_list_update)
next
  case False
  then show ?thesis
    by (simp add: ready_kept_def list_all2_conv_all_nth)
qed

lemma Process_AddThread_Inr_pre:
  assumes ha: "handles_allocated s"
    and r: "Process_AddThread MAX_THREAD_PRIORITY s this entryPoint priority parameter = Inr r"
  shows "this < length (processes s) \<and> priority \<le> MAX_THREAD_PRIORITY \<and>
         unat priority < length (readyThreads s)"
proof -
  let ?t = "\<lparr>t_priority = priority,
             t_threadContext = \<lparr>ctx_entryPoint = entryPoint, ctx_returnAddress = OnThreadExit,
                               ctx_parameter = parameter\<rparr>\<rparr>"
  let ?h = "Suc (allocated s)"
  let ?s1 = "s\<lparr>allocated := ?h\<rparr>"
  let ?s2 = "?s1\<lparr>processes := (processes ?s1)[this :=
                (fst (processes s ! this),
                 (snd (processes s ! this))\<lparr>p_threads := p_threads (snd (processes ?s1 ! this)) @ [(?h, ?t)]\<rparr>)]\<rparr>"
  from r have l: "this < length (processes s)"
    by (auto simp: Process_AddThread_def split: if_splits)
  from r l have pm: "priority \<le> MAX_THREAD_PRIORITY"
    by (auto simp: Process_AddThread_def Thread_ctor_def split: if_splits)
  then have tc: "Thread_ctor MAX_THREAD_PRIORITY entryPoint priority parameter = Inr ?t"
    by (simp add: Thread_ctor_def)
  have "?h \<notin> fst ` set (all_threads ?s1)"
    using ha by (simp add: fresh_not_thread)
  moreover have "this < length (processes ?s1)" using l by simp
  ultimately have ft: "find_thread ?s2 ?h = Some ?t"
    by (rule find_thread_thread_added [rotated])
  have pa: "Process_AddThread MAX_THREAD_PRIORITY s this entryPoint priority parameter =
     (case AddReadyThread ?s2 ?h of Inl e \<Rightarrow> Inl e | Inr s3 \<Rightarrow> Inr (?h, s3))"
    using l
    by (simp add: Process_AddThread_def tc new_node_def Let_def case_prod_unfold split: sum.splits)
  have "unat priority < length (readyThreads s)"
  proof (rule ccontr)
    assume "\<not> unat priority < length (readyThreads s)"
    then have "AddReadyThread ?s2 ?h = Inl (Fatal PriorityInReadyBounds)"
      using AddReadyThread_eq [OF ft] by simp
    with pa r show False by simp
  qed
  with l pm show ?thesis by simp
qed

lemma Process_AddThread_preserves:
  assumes ha: "handles_allocated s" and inv: "ready_set_inv s"
    and r: "Process_AddThread MAX_THREAD_PRIORITY s this entryPoint priority parameter = Inr (th, s')"
  shows "ready_set_inv s' \<and> handles_allocated s' \<and> ready_kept s s'"
proof -
  let ?t = "\<lparr>t_priority = priority,
             t_threadContext = \<lparr>ctx_entryPoint = entryPoint, ctx_returnAddress = OnThreadExit,
                               ctx_parameter = parameter\<rparr>\<rparr>"
  from Process_AddThread_Inr_pre [OF ha r]
  have l: "this < length (processes s)" and pm: "priority \<le> MAX_THREAD_PRIORITY"
    and pr: "unat priority < length (readyThreads s)" by simp_all
  from r have s': "s' = s\<lparr>processes := (processes s)[this :=
                (fst (processes s ! this),
                 (snd (processes s ! this))\<lparr>p_threads := p_threads (snd (processes s ! this)) @
                    [(Suc (allocated s), ?t)]\<rparr>)],
            readyThreads := (readyThreads s)[unat priority :=
                readyThreads s ! unat priority @ [Suc (allocated s)]],
            allocated := Suc (allocated s)\<rparr>"
    unfolding Process_AddThread_eq [OF l pm pr ha] by auto
  have pr': "unat (t_priority ?t) < length (readyThreads s)" using pr by simp
  have "ready_set_inv s'"
    using ready_set_inv_thread_added [OF inv ha l pr', where h = "Suc (allocated s)"
        and ph = "fst (processes s ! this)" and P = "snd (processes s ! this)"
        and a = "Suc (allocated s)"]
    unfolding s' by simp
  moreover have "handles_allocated s'"
    using handles_allocated_thread_added [OF ha l pr, where P = "snd (processes s ! this)"
        and t = ?t]
    unfolding s' by simp
  moreover have "ready_kept s s'"
    unfolding s'
    using ready_kept_append [where s = s and slot = "unat priority" and h = "Suc (allocated s)"]
    by (simp add: ready_kept_def)
  ultimately show ?thesis by simp
qed

lemma CreateProcess_preserves:
  assumes ha: "handles_allocated s" and inv: "ready_set_inv s"
    and r: "CreateProcess MAX_THREAD_PRIORITY s name priority entryPoint = Inr (ph, s')"
  shows "ready_set_inv s' \<and> handles_allocated s' \<and> ready_kept s s'"
proof -
  let ?s2 = "s\<lparr>allocated := Suc (allocated s),
            processes := processes s @ [(Suc (allocated s), Process_ctor name)]\<rparr>"
  have ha2: "handles_allocated ?s2"
    using ha by (rule handles_allocated_process_appended)
  have inv2: "ready_set_inv ?s2"
    using inv unfolding ready_set_inv_def all_threads_process_appended by simp
  from r obtain th where
    "Process_AddThread MAX_THREAD_PRIORITY ?s2 (length (processes s)) entryPoint priority 0 = Inr (th, s')"
    by (auto simp: CreateProcess_def new_node_def Let_def split: sum.splits)
  from Process_AddThread_preserves [OF ha2 inv2 this]
  show ?thesis by (simp add: ready_kept_def)
qed

lemma StartScheduler_preserves:
  assumes ha: "handles_allocated s" and inv: "ready_set_inv s"
    and r: "StartScheduler MAX_THREAD_PRIORITY s = Inr s'"
  shows "ready_set_inv s' \<and> handles_allocated s' \<and> ready_kept s s'"
proof -
  from r obtain h s1
    where c: "CreateProcess MAX_THREAD_PRIORITY s ''System Idle'' 0 IdleThreadMain = Inr (h, s1)"
      and s': "s' = s1\<lparr>idleProcess := h, schedulerTimer := True\<rparr>"
    by (auto simp: StartScheduler_def split: if_splits sum.splits)
  from CreateProcess_preserves [OF ha inv c] show ?thesis
    unfolding s' by (simp add: ready_set_inv_def handles_allocated_def ready_kept_def all_threads_def)
qed

lemma ready_kept_refl: "readyThreads s' = readyThreads s \<Longrightarrow> ready_kept s s'"
  by (simp add: ready_kept_def list_all2_conv_all_nth)

lemma SwitchThreadContext_preserves:
  assumes ha: "handles_allocated s" and inv: "ready_set_inv s"
    and r: "SwitchThreadContext s = Inr (arch, s')"
  shows "ready_set_inv s' \<and> handles_allocated s' \<and> ready_kept s s'"
proof -
  from r obtain c where s': "s' = s\<lparr>runningThread := c\<rparr>"
    by (auto simp: SwitchThreadContext_def Let_def split: sum.splits option.splits)
  from ha inv show ?thesis
    unfolding s'
    by (simp add: ready_set_inv_def handles_allocated_def ready_kept_refl all_threads_def)
qed

lemma Kernel_SwitchThreadContext_preserves:
  assumes ha: "handles_allocated s" and inv: "ready_set_inv s"
    and r: "Kernel_SwitchThreadContext s = Inr s'"
  shows "ready_set_inv s' \<and> handles_allocated s' \<and> ready_kept s s'"
proof -
  from r obtain arch s1 where sw: "SwitchThreadContext s = Inr (arch, s1)"
    and s': "s' = s1\<lparr>g_CurrentThreadContext := Some arch\<rparr>"
    by (auto simp: Kernel_SwitchThreadContext_def split: sum.splits)
  from SwitchThreadContext_preserves [OF ha inv sw] show ?thesis
    unfolding s' by (simp add: ready_set_inv_def handles_allocated_def ready_kept_def all_threads_def)
qed

lemma AddReadyThread_effect:
  assumes ha: "handles_allocated s" and r: "AddReadyThread s handle = Inr s'"
  shows "handles_allocated s' \<and> ready_kept s s' \<and> all_threads s' = all_threads s \<and>
     (\<exists>t. find_thread s handle = Some t \<and>
        (\<forall>p\<in>{..<length (readyThreads s)}. \<forall>h.
           count_list (readyThreads s' ! p) h =
           count_list (readyThreads s ! p) h +
             (if h = handle \<and> p = unat (t_priority t) then 1 else 0)))"
proof -
  from r obtain t where t: "find_thread s handle = Some t"
    by (auto simp: AddReadyThread_def split: option.splits)
  let ?p = "unat (t_priority t)"
  from r have b: "?p < length (readyThreads s)"
    and s': "s' = s\<lparr>readyThreads := (readyThreads s)[?p := readyThreads s ! ?p @ [handle]]\<rparr>"
    unfolding AddReadyThread_eq [OF t] by (auto split: if_splits)
  from t have "handle \<in> fst ` set (all_threads s)"
    by (auto simp: find_thread_def dest: map_of_SomeD intro: rev_image_eqI)
  with ha have hb: "handle \<le> allocated s" by (auto simp: handles_allocated_def)
  have "handles_allocated s'"
    unfolding handles_allocated_def
  proof (intro conjI ballI)
    fix hp assume "hp \<in> set (processes s')"
    with ha show "fst hp \<le> allocated s'" by (simp add: s' handles_allocated_def)
  next
    fix ht assume "ht \<in> set (all_threads s')"
    with ha show "fst ht \<le> allocated s'" by (simp add: s' handles_allocated_def)
  next
    fix q h assume q: "q \<in> set (readyThreads s')" and h: "h \<in> set q"
    from q have "q \<in> insert (readyThreads s ! ?p @ [handle]) (set (readyThreads s))"
      using set_update_subset_insert [of "readyThreads s" ?p] by (auto simp: s')
    moreover have "readyThreads s ! ?p \<in> set (readyThreads s)" using b by simp
    ultimately show "h \<le> allocated s'"
      using ha h hb by (auto simp: s' handles_allocated_def)
  qed
  moreover have "ready_kept s s'"
    unfolding s' by (rule ready_kept_append)
  moreover have "all_threads s' = all_threads s" by (simp add: s')
  moreover have "count_list (readyThreads s' ! p) h =
           count_list (readyThreads s ! p) h +
             (if h = handle \<and> p = unat (t_priority t) then 1 else 0)"
    if "p < length (readyThreads s)" for p h
    using that by (cases "p = ?p") (simp_all add: s')
  ultimately show ?thesis using t by simp
qed

lemma ProcessManager_ctor_invariants:
  "ready_set_inv (ProcessManager_ctor n) \<and> handles_allocated (ProcessManager_ctor n)"
  by (simp add: ready_set_inv_def handles_allocated_def all_threads_def ProcessManager_ctor_def)

lemma ready_set_inv_two_procs: "ready_set_inv two_procs"
proof -
  have rq: "readyThreads two_procs = [[], [], [], [2, 4]]" by (simp add: two_procs_def)
  have p: "unat (t_priority (mk_thread 3 e)) = 3" for e by (simp add: mk_thread_def)
  have c: "count_list ([[], [], [], [2, 4]] ! q) h = (if q = 3 then 1 else 0)"
    if "q < 4" and "h = 2 \<or> h = 4" for q h :: nat
  proof -
    from that(1) have "q = 0 \<or> q = 1 \<or> q = 2 \<or> q = 3" by auto
    with that(2) show ?thesis by auto
  qed
  show ?thesis
    unfolding ready_set_inv_def all_threads_two_procs ready_once_def rq
    by (simp add: p c)
qed

text \<open>
  C5 with \<open>AddReadyThread\<close> among the preserving operations does not hold: called with
  the handle of a thread that is already in the ready set, \<open>AddReadyThread\<close> leaves the
  handle twice in the slot.
\<close>

theorem AddReadyThread_breaks_ready_set_inv:
  "handles_allocated two_procs \<and> ready_set_inv two_procs \<and>
   AddReadyThread two_procs 4 = Inr (two_procs\<lparr>readyThreads := [[], [], [], [2, 4, 4]]\<rparr>) \<and>
   \<not> ready_set_inv (two_procs\<lparr>readyThreads := [[], [], [], [2, 4, 4]]\<rparr>)"
proof -
  have f: "find_thread two_procs 4 = Some (mk_thread 3 (EntryPoint 2))"
    unfolding find_thread_def all_threads_two_procs by simp
  have p: "unat (t_priority (mk_thread 3 (EntryPoint 2))) = 3"
    by (simp add: mk_thread_def)
  have rq: "readyThreads two_procs = [[], [], [], [2, 4]]" by (simp add: two_procs_def)
  have u: "[[], [], [], [2, 4]][3 := [[], [], [], [2, 4]] ! 3 @ [4]] = [[], [], [], [2, 4, 4::nat]]"
    by (simp add: numeral_3_eq_3)
  have a: "AddReadyThread two_procs 4 = Inr (two_procs\<lparr>readyThreads := [[], [], [], [2, 4, 4]]\<rparr>)"
    unfolding AddReadyThread_eq [OF f] p rq u by simp
  have "\<not> ready_once [[], [], [], [2, 4, 4]] 4 (mk_thread 3 (EntryPoint 2))"
    unfolding ready_once_def p by (simp add: Bex_def) (rule exI [of _ 3], simp)
  then have "\<not> ready_set_inv (two_procs\<lparr>readyThreads := [[], [], [], [2, 4, 4]]\<rparr>)"
    unfolding ready_set_inv_def all_threads_readyThreads_update all_threads_two_procs
    by simp
  with a handles_allocated_two_procs ready_set_inv_two_procs show ?thesis by simp
qed

lemma ready_kept_same_queues:
  "ready_kept s2 s' \<Longrightarrow> readyThreads s2 = readyThreads s \<Longrightarrow> ready_kept s s'"
  by (simp add: ready_kept_def)

lemma AddReadyThread_Inr:
  assumes "AddReadyThread s handle = Inr s'"
  shows "\<exists>t. find_thread s handle = Some t \<and> unat (t_priority t) < length (readyThreads s) \<and>
     s' = s\<lparr>readyThreads := (readyThreads s)[unat (t_priority t) :=
                readyThreads s ! unat (t_priority t) @ [handle]]\<rparr>"
proof -
  from assms obtain t where t: "find_thread s handle = Some t"
    by (auto simp: AddReadyThread_def split: option.splits)
  from assms show ?thesis
    unfolding AddReadyThread_eq [OF t] using t by (auto split: if_splits)
qed

lemma AddReadyThread_kept:
  assumes "AddReadyThread s handle = Inr s'"
  shows "ready_kept s s'"
proof -
  from AddReadyThread_Inr [OF assms] obtain t :: Thread where
    "s' = s\<lparr>readyThreads := (readyThreads s)[unat (t_priority t) :=
                readyThreads s ! unat (t_priority t) @ [handle]]\<rparr>"
    by auto
  then show ?thesis by (simp add: ready_kept_append)
qed

lemma Process_AddThread_kept:
  assumes "Process_AddThread mx s this e p a = Inr (th, s')"
  shows "ready_kept s s'"
proof -
  from assms obtain s2 h2 where "AddReadyThread s2 h2 = Inr s'"
    and "readyThreads s2 = readyThreads s"
    by (auto simp: Process_AddThread_def new_node_def Let_def case_prod_unfold
        split: if_splits sum.splits)
  then show ?thesis
    using AddReadyThread_kept ready_kept_same_queues by blast
qed

lemma CreateProcess_kept:
  assumes "CreateProcess mx s name p e = Inr (ph, s')"
  shows "ready_kept s s'"
proof -
  from assms obtain s2 this th where "Process_AddThread mx s2 this e p 0 = Inr (th, s')"
    and "readyThreads s2 = readyThreads s"
    by (auto simp: CreateProcess_def new_node_def Let_def case_prod_unfold split: sum.splits)
  then show ?thesis
    using Process_AddThread_kept ready_kept_same_queues by blast
qed

lemma StartScheduler_kept:
  assumes "StartScheduler mx s = Inr s'"
  shows "ready_kept s s'"
proof -
  from assms obtain h s1 where c: "CreateProcess mx s ''System Idle'' 0 IdleThreadMain = Inr (h, s1)"
    and s': "s' = s1\<lparr>idleProcess := h, schedulerTimer := True\<rparr>"
    by (auto simp: StartScheduler_def split: if_splits sum.splits)
  from CreateProcess_kept [OF c] show ?thesis
    unfolding s' by (simp add: ready_kept_def)
qed

lemma SwitchThreadContext_kept:
  assumes "SwitchThreadContext s = Inr (arch, s')"
  shows "ready_kept s s'"
proof -
  from assms obtain c where "s' = s\<lparr>runningThread := c\<rparr>"
    by (auto simp: SwitchThreadContext_def Let_def split: sum.splits option.splits)
  then show ?thesis by (simp add: ready_kept_refl)
qed

lemma Kernel_SwitchThreadContext_kept:
  assumes "Kernel_SwitchThreadContext s = Inr s'"
  shows "ready_kept s s'"
proof -
  from assms obtain arch s1 where sw: "SwitchThreadContext s = Inr (arch, s1)"
    and s': "s' = s1\<lparr>g_CurrentThreadContext := Some arch\<rparr>"
    by (auto simp: Kernel_SwitchThreadContext_def split: sum.splits)
  from SwitchThreadContext_kept [OF sw] show ?thesis
    unfolding s' by (simp add: ready_kept_def)
qed

lemma AddReadyThread_counts:
  assumes r: "AddReadyThread s handle = Inr s'"
  shows "all_threads s' = all_threads s \<and> processes s' = processes s \<and>
     length (readyThreads s') = length (readyThreads s) \<and>
     (\<exists>t. find_thread s handle = Some t \<and>
        unat (t_priority t) < length (readyThreads s) \<and>
        (\<forall>p\<in>{..<length (readyThreads s)}. \<forall>h.
           count_list (readyThreads s' ! p) h =
           count_list (readyThreads s ! p) h +
             (if h = handle \<and> p = unat (t_priority t) then 1 else 0)))"
proof -
  from AddReadyThread_Inr [OF r] obtain t where t: "find_thread s handle = Some t"
    and b: "unat (t_priority t) < length (readyThreads s)"
    and s': "s' = s\<lparr>readyThreads := (readyThreads s)[unat (t_priority t) :=
                readyThreads s ! unat (t_priority t) @ [handle]]\<rparr>"
    by blast
  have "count_list (readyThreads s' ! p) h =
           count_list (readyThreads s ! p) h +
             (if h = handle \<and> p = unat (t_priority t) then 1 else 0)"
    if "p < length (readyThreads s)" for p h
    using that by (cases "p = unat (t_priority t)") (simp_all add: s')
  with t b show ?thesis by (simp add: s')
qed

lemma AddReadyThread_handles_allocated:
  assumes ha: "handles_allocated s" and r: "AddReadyThread s handle = Inr s'"
  shows "handles_allocated s'"
  using AddReadyThread_effect [OF ha r] by simp

lemma AddReadyThread_breaks_invariant:
  assumes inv: "ready_set_inv s" and r: "AddReadyThread s handle = Inr s'"
  shows "\<not> ready_set_inv s'"
proof
  assume inv': "ready_set_inv s'"
  from AddReadyThread_counts [OF r] obtain t where t: "find_thread s handle = Some t"
    and b: "unat (t_priority t) < length (readyThreads s)"
    and at: "all_threads s' = all_threads s"
    and len: "length (readyThreads s') = length (readyThreads s)"
    and cnt: "count_list (readyThreads s' ! unat (t_priority t)) handle =
              count_list (readyThreads s ! unat (t_priority t)) handle + 1"
    by force
  from t have m: "(handle, t) \<in> set (all_threads s)"
    by (auto simp: find_thread_def dest: map_of_SomeD)
  with inv have "ready_once (readyThreads s) handle t"
    by (force simp: ready_set_inv_def)
  with b have "count_list (readyThreads s ! unat (t_priority t)) handle = 1"
    by (simp add: ready_once_def)
  moreover from m inv' at have "ready_once (readyThreads s') handle t"
    by (force simp: ready_set_inv_def)
  with b len have "count_list (readyThreads s' ! unat (t_priority t)) handle = 1"
    by (simp add: ready_once_def)
  ultimately show False using cnt by simp
qed

lemma AddReadyThread_completes_invariant:
  assumes pe: "pending s handle" and r: "AddReadyThread s handle = Inr s'"
  shows "ready_set_inv s'"
proof -
  from AddReadyThread_Inr [OF r] obtain t where t: "find_thread s handle = Some t"
    and b: "unat (t_priority t) < length (readyThreads s)"
    and s': "s' = s\<lparr>readyThreads := (readyThreads s)[unat (t_priority t) :=
                readyThreads s ! unat (t_priority t) @ [handle]]\<rparr>"
    by blast
  let ?rq' = "(readyThreads s)[unat (t_priority t) := readyThreads s ! unat (t_priority t) @ [handle]]"
  from pe have nq: "\<forall>q\<in>set (readyThreads s). handle \<notin> set q"
    by (simp add: pending_def)
  have "ready_once ?rq' (fst ht) (snd ht)" if m: "ht \<in> set (all_threads s)" for ht
  proof (cases "fst ht = handle")
    case True
    with pe m have "find_thread s handle = Some (snd ht)"
      by (auto simp: pending_def)
    with t have "snd ht = t" by simp
    with True show ?thesis
      using ready_once_append_new [OF nq b] by simp
  next
    case False
    with pe m have "ready_once (readyThreads s) (fst ht) (snd ht)"
      by (auto simp: pending_def)
    with False b show ?thesis by (simp add: ready_once_append_other)
  qed
  then show ?thesis
    by (simp add: ready_set_inv_def s')
qed

lemma AddThread_call_site:
  assumes ha: "handles_allocated s" and inv: "ready_set_inv s"
    and l: "this < length (processes s)"
    and tc: "Thread_ctor MAX_THREAD_PRIORITY entryPoint priority parameter = Inr t"
  shows "pending
     (s\<lparr>allocated := Suc (allocated s),
        processes := (processes s)[this :=
           (fst (processes s ! this),
            (snd (processes s ! this))\<lparr>p_threads :=
               p_threads (snd (processes s ! this)) @ [(Suc (allocated s), t)]\<rparr>)]\<rparr>)
     (Suc (allocated s)) \<and>
   Process_AddThread MAX_THREAD_PRIORITY s this entryPoint priority parameter =
     (case AddReadyThread
        (s\<lparr>allocated := Suc (allocated s),
           processes := (processes s)[this :=
             (fst (processes s ! this),
              (snd (processes s ! this))\<lparr>p_threads :=
                 p_threads (snd (processes s ! this)) @ [(Suc (allocated s), t)]\<rparr>)]\<rparr>)
        (Suc (allocated s)) of
        Inl e \<Rightarrow> Inl e
      | Inr s3 \<Rightarrow> Inr (Suc (allocated s), s3))"
proof -
  let ?h = "Suc (allocated s)"
  let ?s1 = "s\<lparr>allocated := ?h\<rparr>"
  let ?s2 = "?s1\<lparr>processes := (processes ?s1)[this :=
                (fst (processes s ! this),
                 (snd (processes s ! this))\<lparr>p_threads := p_threads (snd (processes ?s1 ! this)) @ [(?h, t)]\<rparr>)]\<rparr>"
  have l1: "this < length (processes ?s1)" using l by simp
  have fr: "?h \<notin> fst ` set (all_threads ?s1)"
    using ha by (simp add: fresh_not_thread)
  from l1 fr have ft: "find_thread ?s2 ?h = Some t"
    by (rule find_thread_thread_added)
  have ats: "set (all_threads ?s2) = insert (?h, t) (set (all_threads s))"
    using set_all_threads_thread_added [OF l1, where ph = "fst (processes s ! this)"
        and P = "snd (processes s ! this)" and x = "(?h, t)"]
    by simp
  have nq: "\<forall>q\<in>set (readyThreads ?s2). ?h \<notin> set q"
    using ha by (auto dest: not_in_ready_fresh)
  have each: "if fst ht = ?h then find_thread ?s2 ?h = Some (snd ht)
              else ready_once (readyThreads ?s2) (fst ht) (snd ht)"
    if m: "ht \<in> set (all_threads ?s2)" for ht
  proof (cases "ht = (?h, t)")
    case True
    then show ?thesis using ft by simp
  next
    case False
    with m ats have o: "ht \<in> set (all_threads s)" by auto
    with ha have "fst ht \<noteq> ?h" by (force simp: handles_allocated_def)
    moreover from o inv have "ready_once (readyThreads s) (fst ht) (snd ht)"
      by (simp add: ready_set_inv_def)
    ultimately show ?thesis by simp
  qed
  have pe: "pending ?s2 ?h"
    unfolding pending_def using nq each by blast
  have pa: "Process_AddThread MAX_THREAD_PRIORITY s this entryPoint priority parameter =
     (case AddReadyThread ?s2 ?h of Inl e \<Rightarrow> Inl e | Inr s3 \<Rightarrow> Inr (?h, s3))"
    using l
    by (simp add: Process_AddThread_def tc new_node_def Let_def case_prod_unfold split: sum.splits)
  from pe pa show ?thesis by simp
qed

text \<open>
  C5, in the form that holds. No operation removes an entry from a slot, in any state:
  after \<open>CreateProcess\<close>, \<open>Process::AddThread\<close>, \<open>AddReadyThread\<close>, \<open>StartScheduler\<close>,
  \<open>SwitchThreadContext\<close> and \<open>Kernel_SwitchThreadContext\<close> every slot extends the slot it
  was. On a state whose handles were all handed out by the allocator and in which every
  created thread is in the ready set once (in the slot of its priority and in no other),
  \<open>CreateProcess\<close>, \<open>Process::AddThread\<close>, \<open>StartScheduler\<close>, \<open>SwitchThreadContext\<close> and
  \<open>Kernel_SwitchThreadContext\<close> lead to such a state again. \<open>AddReadyThread\<close> by itself,
  in any state, creates no thread and adds one occurrence of its handle to the slot of
  the priority of the thread, changing no other count. So on a state that satisfies the
  invariant it breaks the invariant, and on a state where its thread is the one created
  thread that is in no slot yet it establishes the invariant; that is the state in which
  \<open>Process::AddThread\<close> calls it.
\<close>

theorem ready_set_inv_preserved_and_entries_kept:
  "(CreateProcess MAX_THREAD_PRIORITY s name priority entryPoint = Inr (ph, s_create)
      \<longrightarrow> ready_kept s s_create)
   \<and> (Process_AddThread MAX_THREAD_PRIORITY s this entry prio parameter = Inr (th, s_add)
      \<longrightarrow> ready_kept s s_add)
   \<and> (StartScheduler MAX_THREAD_PRIORITY s = Inr s_start \<longrightarrow> ready_kept s s_start)
   \<and> (SwitchThreadContext s = Inr (arch, s_switch) \<longrightarrow> ready_kept s s_switch)
   \<and> (Kernel_SwitchThreadContext s = Inr s_kernel \<longrightarrow> ready_kept s s_kernel)
   \<and> (AddReadyThread s handle = Inr s_ready \<longrightarrow> ready_kept s s_ready)
   \<and> (handles_allocated s \<and> ready_set_inv s \<longrightarrow>
        (CreateProcess MAX_THREAD_PRIORITY s name priority entryPoint = Inr (ph, s_create)
           \<longrightarrow> ready_set_inv s_create \<and> handles_allocated s_create)
      \<and> (Process_AddThread MAX_THREAD_PRIORITY s this entry prio parameter = Inr (th, s_add)
           \<longrightarrow> ready_set_inv s_add \<and> handles_allocated s_add)
      \<and> (StartScheduler MAX_THREAD_PRIORITY s = Inr s_start
           \<longrightarrow> ready_set_inv s_start \<and> handles_allocated s_start)
      \<and> (SwitchThreadContext s = Inr (arch, s_switch)
           \<longrightarrow> ready_set_inv s_switch \<and> handles_allocated s_switch)
      \<and> (Kernel_SwitchThreadContext s = Inr s_kernel
           \<longrightarrow> ready_set_inv s_kernel \<and> handles_allocated s_kernel))
   \<and> (AddReadyThread s handle = Inr s_ready \<longrightarrow>
        all_threads s_ready = all_threads s \<and> processes s_ready = processes s \<and>
        length (readyThreads s_ready) = length (readyThreads s) \<and>
        (\<exists>t. find_thread s handle = Some t \<and>
           unat (t_priority t) < length (readyThreads s) \<and>
           (\<forall>p\<in>{..<length (readyThreads s)}. \<forall>h.
              count_list (readyThreads s_ready ! p) h =
              count_list (readyThreads s ! p) h +
                (if h = handle \<and> p = unat (t_priority t) then 1 else 0))) \<and>
        (handles_allocated s \<longrightarrow> handles_allocated s_ready) \<and>
        (ready_set_inv s \<longrightarrow> \<not> ready_set_inv s_ready) \<and>
        (pending s handle \<longrightarrow> ready_set_inv s_ready))
   \<and> (handles_allocated s \<and> ready_set_inv s \<and> this < length (processes s) \<and>
      Thread_ctor MAX_THREAD_PRIORITY entry prio parameter = Inr t \<longrightarrow>
        pending
          (s\<lparr>allocated := Suc (allocated s),
             processes := (processes s)[this :=
               (fst (processes s ! this),
                (snd (processes s ! this))\<lparr>p_threads :=
                   p_threads (snd (processes s ! this)) @ [(Suc (allocated s), t)]\<rparr>)]\<rparr>)
          (Suc (allocated s)) \<and>
        Process_AddThread MAX_THREAD_PRIORITY s this entry prio parameter =
          (case AddReadyThread
             (s\<lparr>allocated := Suc (allocated s),
                processes := (processes s)[this :=
                  (fst (processes s ! this),
                   (snd (processes s ! this))\<lparr>p_threads :=
                      p_threads (snd (processes s ! this)) @ [(Suc (allocated s), t)]\<rparr>)]\<rparr>)
             (Suc (allocated s)) of
             Inl e \<Rightarrow> Inl e
           | Inr s3 \<Rightarrow> Inr (Suc (allocated s), s3)))"
proof (intro conjI impI)
  assume "CreateProcess MAX_THREAD_PRIORITY s name priority entryPoint = Inr (ph, s_create)"
  then show "ready_kept s s_create" by (rule CreateProcess_kept)
next
  assume "Process_AddThread MAX_THREAD_PRIORITY s this entry prio parameter = Inr (th, s_add)"
  then show "ready_kept s s_add" by (rule Process_AddThread_kept)
next
  assume "StartScheduler MAX_THREAD_PRIORITY s = Inr s_start"
  then show "ready_kept s s_start" by (rule StartScheduler_kept)
next
  assume "SwitchThreadContext s = Inr (arch, s_switch)"
  then show "ready_kept s s_switch" by (rule SwitchThreadContext_kept)
next
  assume "Kernel_SwitchThreadContext s = Inr s_kernel"
  then show "ready_kept s s_kernel" by (rule Kernel_SwitchThreadContext_kept)
next
  assume "AddReadyThread s handle = Inr s_ready"
  then show "ready_kept s s_ready" by (rule AddReadyThread_kept)
next
  assume i: "handles_allocated s \<and> ready_set_inv s"
    and r: "CreateProcess MAX_THREAD_PRIORITY s name priority entryPoint = Inr (ph, s_create)"
  from i CreateProcess_preserves [OF _ _ r]
  show "ready_set_inv s_create" "handles_allocated s_create" by simp_all
next
  assume i: "handles_allocated s \<and> ready_set_inv s"
    and r: "Process_AddThread MAX_THREAD_PRIORITY s this entry prio parameter = Inr (th, s_add)"
  from i Process_AddThread_preserves [OF _ _ r]
  show "ready_set_inv s_add" "handles_allocated s_add" by simp_all
next
  assume i: "handles_allocated s \<and> ready_set_inv s"
    and r: "StartScheduler MAX_THREAD_PRIORITY s = Inr s_start"
  from i StartScheduler_preserves [OF _ _ r]
  show "ready_set_inv s_start" "handles_allocated s_start" by simp_all
next
  assume i: "handles_allocated s \<and> ready_set_inv s"
    and r: "SwitchThreadContext s = Inr (arch, s_switch)"
  from i SwitchThreadContext_preserves [OF _ _ r]
  show "ready_set_inv s_switch" "handles_allocated s_switch" by simp_all
next
  assume i: "handles_allocated s \<and> ready_set_inv s"
    and r: "Kernel_SwitchThreadContext s = Inr s_kernel"
  from i Kernel_SwitchThreadContext_preserves [OF _ _ r]
  show "ready_set_inv s_kernel" "handles_allocated s_kernel" by simp_all
next
  assume r: "AddReadyThread s handle = Inr s_ready"
  from AddReadyThread_counts [OF r]
  show "all_threads s_ready = all_threads s" "processes s_ready = processes s"
    "length (readyThreads s_ready) = length (readyThreads s)"
    "\<exists>t. find_thread s handle = Some t \<and>
           unat (t_priority t) < length (readyThreads s) \<and>
           (\<forall>p\<in>{..<length (readyThreads s)}. \<forall>h.
              count_list (readyThreads s_ready ! p) h =
              count_list (readyThreads s ! p) h +
                (if h = handle \<and> p = unat (t_priority t) then 1 else 0))"
    by simp_all
next
  assume "AddReadyThread s handle = Inr s_ready" and "handles_allocated s"
  then show "handles_allocated s_ready"
    by (rule AddReadyThread_handles_allocated [rotated])
next
  assume "AddReadyThread s handle = Inr s_ready" and "ready_set_inv s"
  then show "\<not> ready_set_inv s_ready"
    by (rule AddReadyThread_breaks_invariant [rotated])
next
  assume "AddReadyThread s handle = Inr s_ready" and "pending s handle"
  then show "ready_set_inv s_ready"
    by (rule AddReadyThread_completes_invariant [rotated])
next
  assume a: "handles_allocated s \<and> ready_set_inv s \<and> this < length (processes s) \<and>
      Thread_ctor MAX_THREAD_PRIORITY entry prio parameter = Inr t"
  then have ha: "handles_allocated s" and inv: "ready_set_inv s"
    and l: "this < length (processes s)"
    and tc: "Thread_ctor MAX_THREAD_PRIORITY entry prio parameter = Inr t"
    by simp_all
  from AddThread_call_site [OF ha inv l tc]
  show "pending
          (s\<lparr>allocated := Suc (allocated s),
             processes := (processes s)[this :=
               (fst (processes s ! this),
                (snd (processes s ! this))\<lparr>p_threads :=
                   p_threads (snd (processes s ! this)) @ [(Suc (allocated s), t)]\<rparr>)]\<rparr>)
          (Suc (allocated s))"
    and "Process_AddThread MAX_THREAD_PRIORITY s this entry prio parameter =
          (case AddReadyThread
             (s\<lparr>allocated := Suc (allocated s),
                processes := (processes s)[this :=
                  (fst (processes s ! this),
                   (snd (processes s ! this))\<lparr>p_threads :=
                      p_threads (snd (processes s ! this)) @ [(Suc (allocated s), t)]\<rparr>)]\<rparr>)
             (Suc (allocated s)) of
             Inl e \<Rightarrow> Inl e
           | Inr s3 \<Rightarrow> Inr (Suc (allocated s), s3))"
    by simp_all
qed

lemma pending_before_enqueue: "pending (two_procs\<lparr>readyThreads := [[], [], [], [2]]\<rparr>) 4"
proof -
  have p: "unat (t_priority (mk_thread 3 e)) = 3" for e by (simp add: mk_thread_def)
  have c: "count_list ([[], [], [], [2]] ! q) 2 = (if q = 3 then 1 else 0)"
    if "q < 4" for q :: nat
  proof -
    from that have "q = 0 \<or> q = 1 \<or> q = 2 \<or> q = 3" by auto
    then show ?thesis by auto
  qed
  have f: "find_thread (two_procs\<lparr>readyThreads := [[], [], [], [2]]\<rparr>) 4 =
      Some (mk_thread 3 (EntryPoint 2))"
    by (simp add: find_thread_def all_threads_two_procs)
  show ?thesis
    unfolding pending_def f all_threads_readyThreads_update all_threads_two_procs ready_once_def
    by (simp add: p c)
qed

theorem ready_set_inv_preserved_and_entries_kept_witness:
  "\<not> isl (CreateProcess 3 two_procs ''C'' 1 (EntryPoint 3)) \<and>
   ready_set_inv (snd (projr (CreateProcess 3 two_procs ''C'' 1 (EntryPoint 3)))) \<and>
   ready_kept two_procs (snd (projr (CreateProcess 3 two_procs ''C'' 1 (EntryPoint 3)))) \<and>
   \<not> isl (Process_AddThread 3 two_procs 0 (EntryPoint 9) 2 7) \<and>
   ready_set_inv (snd (projr (Process_AddThread 3 two_procs 0 (EntryPoint 9) 2 7))) \<and>
   ready_kept two_procs (snd (projr (Process_AddThread 3 two_procs 0 (EntryPoint 9) 2 7))) \<and>
   StartScheduler 3 two_procs = Inr started \<and>
   ready_set_inv started \<and> handles_allocated started \<and> ready_kept two_procs started \<and>
   \<not> isl (SwitchThreadContext two_procs) \<and>
   ready_set_inv (snd (projr (SwitchThreadContext two_procs))) \<and>
   ready_kept two_procs (snd (projr (SwitchThreadContext two_procs))) \<and>
   \<not> isl (Kernel_SwitchThreadContext two_procs) \<and>
   ready_set_inv (projr (Kernel_SwitchThreadContext two_procs)) \<and>
   ready_kept two_procs (projr (Kernel_SwitchThreadContext two_procs)) \<and>
   \<not> isl (AddReadyThread two_procs 4) \<and>
   ready_kept two_procs (projr (AddReadyThread two_procs 4)) \<and>
   handles_allocated (projr (AddReadyThread two_procs 4)) \<and>
   \<not> ready_set_inv (projr (AddReadyThread two_procs 4)) \<and>
   pending (two_procs\<lparr>readyThreads := [[], [], [], [2]]\<rparr>) 4 \<and>
   AddReadyThread (two_procs\<lparr>readyThreads := [[], [], [], [2]]\<rparr>) 4 = Inr two_procs \<and>
   ready_kept (two_procs\<lparr>readyThreads := [[], [], [], [2]]\<rparr>) two_procs \<and>
   ready_set_inv two_procs \<and>
   pending
     (two_procs\<lparr>allocated := Suc (allocated two_procs),
        processes := (processes two_procs)[0 :=
          (fst (processes two_procs ! 0),
           (snd (processes two_procs ! 0))\<lparr>p_threads :=
              p_threads (snd (processes two_procs ! 0)) @
                [(Suc (allocated two_procs),
                  \<lparr>t_priority = 2,
                   t_threadContext = \<lparr>ctx_entryPoint = EntryPoint 9,
                                     ctx_returnAddress = OnThreadExit,
                                     ctx_parameter = 7\<rparr>\<rparr>)]\<rparr>)]\<rparr>)
     (Suc (allocated two_procs))"
proof -
  let ?before = "two_procs\<lparr>readyThreads := [[], [], [], [2]]\<rparr>"
  let ?t = "\<lparr>t_priority = 2,
             t_threadContext = \<lparr>ctx_entryPoint = EntryPoint 9, ctx_returnAddress = OnThreadExit,
                               ctx_parameter = 7\<rparr>\<rparr>"
  note ha = handles_allocated_two_procs
  have rq: "length (readyThreads two_procs) = 4" "processes two_procs \<noteq> []"
    by (simp_all add: two_procs_def)
  have f: "find_thread ?before 4 = Some (mk_thread 3 (EntryPoint 2))"
    by (simp add: find_thread_def all_threads_two_procs)
  have p3: "unat (t_priority (mk_thread 3 (EntryPoint 2))) = 3"
    by (simp add: mk_thread_def)
  have u: "[[], [], [], [2]][3 := [[], [], [], [2]] ! 3 @ [4]] = [[], [], [], [2, 4::nat]]"
    by (simp add: numeral_3_eq_3)
  have enq: "AddReadyThread ?before 4 = Inr two_procs"
    unfolding AddReadyThread_eq [OF f] p3 by (simp add: u) (simp add: two_procs_def)
  note inst_before = ready_set_inv_preserved_and_entries_kept
    [where s = ?before and handle = 4 and s_ready = two_procs]
  from inst_before enq pending_before_enqueue
  have inv: "ready_set_inv two_procs" and kb: "ready_kept ?before two_procs"
    by blast+
  have "unat (1::32 word) < length (readyThreads two_procs)" "(1::32 word) \<le> 3"
    unfolding rq by simp_all
  from CreateProcess_eq [OF this(2) this(1) ha]
  obtain ph s1 where c: "CreateProcess 3 two_procs ''C'' 1 (EntryPoint 3) = Inr (ph, s1)"
    by blast
  have l: "0 < length (processes two_procs)" using rq(2) by simp
  have "unat (2::32 word) < length (readyThreads two_procs)" "(2::32 word) \<le> 3"
    unfolding rq by simp_all
  from Process_AddThread_eq [OF l this(2) this(1) ha]
  obtain th s2 where t: "Process_AddThread 3 two_procs 0 (EntryPoint 9) 2 7 = Inr (th, s2)"
    by blast
  have tc: "Thread_ctor 3 (EntryPoint 9) 2 7 = Inr ?t"
    by (simp add: Thread_ctor_def)
  note st = StartScheduler_example
  have "\<exists>q\<in>set (readyThreads two_procs). q \<noteq> []" by (simp add: two_procs_def)
  from Select_returns_entry [OF this] obtain p i
    where sel: "SelectNextSwitchToThread two_procs = Inr (Some (p, i))"
      and v: "p < length (readyThreads two_procs)" "i < length (readyThreads two_procs ! p)"
    by blast
  then have sw: "SwitchThreadContext two_procs =
       Inr (ContextOf (readyThreads two_procs ! p ! i), two_procs\<lparr>runningThread := Some (p, i)\<rparr>)"
    by (simp add: SwitchThreadContext_def it_deref_def)
  then have k: "Kernel_SwitchThreadContext two_procs =
      Inr (two_procs\<lparr>runningThread := Some (p, i),
            g_CurrentThreadContext := Some (ContextOf (readyThreads two_procs ! p ! i))\<rparr>)"
    by (simp add: Kernel_SwitchThreadContext_def)
  have f4: "find_thread two_procs 4 = Some (mk_thread 3 (EntryPoint 2))"
    unfolding find_thread_def all_threads_two_procs by simp
  have "unat (t_priority (mk_thread 3 (EntryPoint 2))) < length (readyThreads two_procs)"
    unfolding rq by (simp add: mk_thread_def)
  with AddReadyThread_eq [OF f4] obtain s6 where a: "AddReadyThread two_procs 4 = Inr s6"
    by simp
  note inst = ready_set_inv_preserved_and_entries_kept
    [where s = two_procs and MAX_THREAD_PRIORITY = 3 and name = "''C''" and priority = 1
      and entryPoint = "EntryPoint 3" and ph = ph and s_create = s1
      and this = 0 and entry = "EntryPoint 9" and prio = 2 and parameter = 7 and th = th
      and s_add = s2 and s_start = started
      and arch = "ContextOf (readyThreads two_procs ! p ! i)"
      and s_switch = "two_procs\<lparr>runningThread := Some (p, i)\<rparr>"
      and s_kernel = "two_procs\<lparr>runningThread := Some (p, i),
            g_CurrentThreadContext := Some (ContextOf (readyThreads two_procs ! p ! i))\<rparr>"
      and handle = 4 and s_ready = s6 and t = ?t]
  from inst c ha inv have r1: "ready_set_inv s1" "ready_kept two_procs s1" by blast+
  from inst t ha inv have r2: "ready_set_inv s2" "ready_kept two_procs s2" by blast+
  from inst st ha inv have r3: "ready_set_inv started" "handles_allocated started"
    "ready_kept two_procs started" by blast+
  from inst sw ha inv have r4: "ready_set_inv (two_procs\<lparr>runningThread := Some (p, i)\<rparr>)"
    "ready_kept two_procs (two_procs\<lparr>runningThread := Some (p, i)\<rparr>)" by blast+
  from inst k ha inv have r5: "ready_set_inv (two_procs\<lparr>runningThread := Some (p, i),
            g_CurrentThreadContext := Some (ContextOf (readyThreads two_procs ! p ! i))\<rparr>)"
    "ready_kept two_procs (two_procs\<lparr>runningThread := Some (p, i),
            g_CurrentThreadContext := Some (ContextOf (readyThreads two_procs ! p ! i))\<rparr>)"
    by blast+
  from inst a ha inv have r6: "ready_kept two_procs s6" "handles_allocated s6"
    "\<not> ready_set_inv s6" by blast+
  from inst ha inv l tc have r7: "pending
     (two_procs\<lparr>allocated := Suc (allocated two_procs),
        processes := (processes two_procs)[0 :=
          (fst (processes two_procs ! 0),
           (snd (processes two_procs ! 0))\<lparr>p_threads :=
              p_threads (snd (processes two_procs ! 0)) @
                [(Suc (allocated two_procs), ?t)]\<rparr>)]\<rparr>)
     (Suc (allocated two_procs))" by blast
  from c t st sw k a enq kb inv pending_before_enqueue r1 r2 r3 r4 r5 r6 r7
  show ?thesis by simp
qed

end
